theory Spec2Isabelle
  imports Main
begin

section \<open>Values and payloads\<close>

text \<open>
  The fetchers hand the normalizers JSON objects (Python dicts). A field of such an
  object is modelled as a JSON string or JSON null; a key may also be missing from the
  object. Strings are character lists and \<open>len\<close> is \<open>length\<close>. Numbers, arrays and
  nested objects as field values are outside the model: both upstream services deliver
  the fields read here as strings or null.
\<close>

datatype jval = JNull | JStr string

type_synonym payload = "string \<rightharpoonup> jval"

text \<open>\<open>d.get(key, default)\<close> of a Python dict.\<close>

definition get :: "payload \<Rightarrow> string \<Rightarrow> jval \<Rightarrow> jval" where
  "get d k dflt = (case d k of None \<Rightarrow> dflt | Some v \<Rightarrow> v)"

text \<open>Python truthiness: \<open>None\<close> and the empty string are false.\<close>

fun truthy :: "jval \<Rightarrow> bool" where
  "truthy JNull = False"
| "truthy (JStr s) = (s \<noteq> [])"

text \<open>\<open>str(v)\<close>, which is also how an f-string renders \<open>{v}\<close>.\<close>

fun py_str :: "jval \<Rightarrow> string" where
  "py_str JNull = ''None''"
| "py_str (JStr s) = s"

text \<open>\<open>a or b\<close>: the first operand when it is truthy, else the second.\<close>

definition py_or :: "jval \<Rightarrow> jval \<Rightarrow> jval" where
  "py_or a b = (if truthy a then a else b)"

text \<open>
  Python floats are not computed with here; they are values of an uninterpreted type,
  produced only by the built-in \<open>float\<close>, which the normalizer takes as a parameter.
\<close>

typedecl pyfloat

text \<open>The exceptions the ingestion code can see; all are subclasses of \<open>Exception\<close>.\<close>

datatype exn = TypeError | ValueError | ScraperTimeout | OtherError

section \<open>The canonical store (database.py)\<close>

text \<open>
  A row of table \<open>violations\<close>: the thirteen columns that \<open>upsert_violation\<close> binds.
  The generated \<open>id\<close> is the position of the row in the table (rows are kept in
  insertion order); \<open>created_at\<close> is not modelled.
\<close>

record violation =
  facility_name :: jval
  location :: jval
  state :: jval
  county :: jval
  latitude :: "pyfloat option"
  longitude :: "pyfloat option"
  violation_type :: jval
  date :: jval
  source :: jval
  source_id :: jval
  description :: jval
  severity :: jval
  penalty_amount :: "pyfloat option"

type_synonym table = "violation list"

text \<open>\<open>init_db\<close>: \<open>CREATE TABLE IF NOT EXISTS\<close> leaves an existing table as it is.\<close>

definition init_db :: "table \<Rightarrow> table" where
  "init_db t = t"

text \<open>
  The schema's constraints. \<open>facility_name\<close> and \<open>source\<close> are \<open>NOT NULL\<close>.
  \<open>UNIQUE(source, source_id)\<close> is violated by a new row when an existing row has
  equal values in both columns; SQLite compares with SQL equality, under which a NULL
  equals nothing, so a row whose \<open>source_id\<close> is NULL never violates it.
\<close>

definition not_null_violation :: "violation \<Rightarrow> bool" where
  "not_null_violation v \<longleftrightarrow> facility_name v = JNull \<or> source v = JNull"

definition unique_violation :: "table \<Rightarrow> violation \<Rightarrow> bool" where
  "unique_violation t v \<longleftrightarrow>
     source v \<noteq> JNull \<and> source_id v \<noteq> JNull \<and>
     (\<exists>r \<in> set t. source r = source v \<and> source_id r = source_id v)"

text \<open>
  What a Python call returns: \<open>upsert_violation\<close> has no \<open>return\<close> statement, so
  its value is \<open>None\<close>.
\<close>

datatype pyret = RNone | RBool bool

text \<open>
  \<open>upsert_violation\<close>: \<open>INSERT OR IGNORE\<close>. A row that violates a constraint is
  skipped without an error; any other row is appended.
\<close>

definition upsert_violation :: "table \<Rightarrow> violation \<Rightarrow> pyret \<times> table" where
  "upsert_violation t v =
     (if not_null_violation v \<or> unique_violation t v then (RNone, t)
      else (RNone, t @ [v]))"

text \<open>Upserting a sequence of records, one call after the other.\<close>

fun upsert_all :: "violation list \<Rightarrow> table \<Rightarrow> table" where
  "upsert_all [] t = t"
| "upsert_all (v # vs) t = upsert_all vs (snd (upsert_violation t v))"

text \<open>The natural key of a row, and the tables in which no present key occurs twice.\<close>

definition natural_key :: "violation \<Rightarrow> jval \<times> jval" where
  "natural_key v = (source v, source_id v)"

definition keyed :: "violation \<Rightarrow> bool" where
  "keyed v \<longleftrightarrow> source_id v \<noteq> JNull"



definition key_present :: "table \<Rightarrow> violation \<Rightarrow> bool" where
  "key_present t v \<longleftrightarrow> (\<exists>r \<in> set t. natural_key r = natural_key v)"


text \<open>A record of the kind the seed loader may hold: no source identifier.\<close>

definition unkeyed_record :: violation where
  "unkeyed_record =
     \<lparr>facility_name = JStr ''Farm'', location = JNull, state = JNull, county = JNull,
      latitude = None, longitude = None, violation_type = JNull, date = JNull,
      source = JStr ''Seed'', source_id = JNull, description = JNull,
      severity = JNull, penalty_amount = None\<rparr>"

definition keyed_record :: violation where
  "keyed_record = unkeyed_record\<lparr>source_id := JStr ''FDA-F-0001-2023''\<rparr>"

section \<open>Python built-ins used by the normalizers\<close>

text \<open>
  \<open>sep.join(parts)\<close> on strings, \<open>filter(None, xs)\<close> (the truthy members, which are
  non-empty strings, so that joining them cannot raise), the slice \<open>s[i:j]\<close> for
  \<open>0 \<le> i \<le> j\<close>, and the substring test \<open>sub in s\<close>.
\<close>

fun join :: "string \<Rightarrow> string list \<Rightarrow> string" where
  "join sep [] = []"
| "join sep [x] = x"
| "join sep (x # y # ys) = x @ sep @ join sep (y # ys)"

definition filter_none :: "jval list \<Rightarrow> string list" where
  "filter_none xs = map py_str (filter truthy xs)"

definition slice :: "string \<Rightarrow> nat \<Rightarrow> nat \<Rightarrow> string" where
  "slice s i j = take (j - i) (drop i s)"

fun contains :: "string \<Rightarrow> string \<Rightarrow> bool" where
  "contains sub [] = (sub = [])"
| "contains sub (c # cs) = (take (length sub) (c # cs) = sub \<or> contains sub cs)"

text \<open>\<open>str(n)\<close> for an integer: its decimal numeral.\<close>

definition digit_char :: "nat \<Rightarrow> char" where
  "digit_char d = ''0123456789'' ! d"

function digits :: "nat \<Rightarrow> string" where
  "digits n = (if n < 10 then [digit_char n] else digits (n div 10) @ [digit_char (n mod 10)])"
  by pat_completeness auto
termination
  by (relation "measure id") auto

definition str_int :: "int \<Rightarrow> string" where
  "str_int i = (if i < 0 then CHR ''-'' # digits (nat (- i)) else digits (nat i))"

text \<open>
  The built-ins whose result depends on Python's number grammar or Unicode tables are
  parameters of the model: \<open>float(s)\<close> and \<open>int(s)\<close> on a string (\<open>None\<close> when
  they raise \<open>ValueError\<close>), \<open>s.upper()\<close> and \<open>s.lower()\<close>. Every theorem below
  holds for all of them.
\<close>

record python =
  py_float :: "string \<Rightarrow> pyfloat option"
  py_int :: "string \<Rightarrow> int option"
  py_upper :: "string \<Rightarrow> string"
  py_lower :: "string \<Rightarrow> string"

section \<open>The recall normalizer (scrapers/fsis\_recalls.py)\<close>

definition CLASS_SEVERITY :: "string \<rightharpoonup> string" where
  "CLASS_SEVERITY =
     map_of [(''Class I'', ''High''), (''Class II'', ''Medium''), (''Class III'', ''Low'')]"

text \<open>\<open>CLASS_SEVERITY.get(classification, "Medium")\<close>; \<open>None\<close> is not a key.\<close>

definition class_severity :: "jval \<Rightarrow> string" where
  "class_severity classification =
     (case classification of
        JNull \<Rightarrow> ''Medium''
      | JStr c \<Rightarrow> (case CLASS_SEVERITY c of None \<Rightarrow> ''Medium'' | Some sev \<Rightarrow> sev))"

text \<open>\<open>f"{label}{v}" if v else None\<close>, one entry of \<open>desc_parts\<close>.\<close>

definition part :: "string \<Rightarrow> jval \<Rightarrow> jval" where
  "part label v = (if truthy v then JStr (label @ py_str v) else JNull)"

text \<open>The date: \<open>YYYYMMDD\<close> to \<open>YYYY-MM-DD\<close> when the field has exactly 8 characters.\<close>

definition recall_date :: "jval \<Rightarrow> jval" where
  "recall_date init_date =
     (if truthy init_date \<and> length (py_str init_date) = 8
      then JStr (slice (py_str init_date) 0 4 @ ''-'' @ slice (py_str init_date) 4 6
                 @ ''-'' @ slice (py_str init_date) 6 8)
      else JNull)"

text \<open>The description as assembled, before it is truncated.\<close>

definition recall_desc_parts :: "payload \<Rightarrow> jval list" where
  "recall_desc_parts recall =
     [part ''Product: '' (get recall ''product_description'' (JStr [])),
      part ''Reason: '' (get recall ''reason_for_recall'' (JStr [])),
      part ''Quantity: '' (get recall ''product_quantity'' (JStr [])),
      part ''Distribution: '' (get recall ''distribution_pattern'' (JStr [])),
      part ''Type: '' (get recall ''voluntary_mandated'' (JStr [])),
      part ''Classification: '' (get recall ''classification'' (JStr []))]"

definition assembled_description :: "payload \<Rightarrow> string" where
  "assembled_description recall = join ''. '' (filter_none (recall_desc_parts recall))"

definition truncate_description :: "string \<Rightarrow> string" where
  "truncate_description d = (if length d > 2000 then take 1997 d @ ''...'' else d)"

text \<open>
  \<open>recall_to_violation\<close>. The only operation that can raise is \<open>len(state)\<close>, on a
  null \<open>state\<close>: \<open>TypeError\<close>.
\<close>

definition recall_to_violation :: "payload \<Rightarrow> exn + violation" where
  "recall_to_violation recall =
     (let firm = get recall ''recalling_firm'' (JStr ''Unknown'');
          city = get recall ''city'' (JStr []);
          st = get recall ''state'' (JStr []);
          classification = get recall ''classification'' (JStr []);
          recall_number = get recall ''recall_number'' (JStr []);
          init_date = get recall ''recall_initiation_date'' (JStr []);
          loc = join '', '' (filter_none [city, st]);
          sev = class_severity classification;
          desc = truncate_description (assembled_description recall)
      in case st of
           JNull \<Rightarrow> Inl TypeError
         | JStr s \<Rightarrow>
             Inr \<lparr>facility_name = firm,
                  location = JStr loc,
                  state = (if length s = 2 then st else JNull),
                  county = JNull,
                  latitude = None,
                  longitude = None,
                  violation_type = JStr ''Food Safety Recall - Meat/Poultry'',
                  date = recall_date init_date,
                  source = JStr ''USDA FSIS (via openFDA)'',
                  source_id = JStr (''FDA-'' @ py_str recall_number),
                  description = JStr desc,
                  severity = JStr sev,
                  penalty_amount = None\<rparr>)"

section \<open>The facility normalizer (scrapers/epa\_echo.py)\<close>

definition SIC_NAMES :: "string \<rightharpoonup> string" where
  "SIC_NAMES =
     map_of [(''0211'', ''Beef Cattle Feedlots''), (''0213'', ''Hog Operations''),
             (''0251'', ''Broiler/Fryer Chickens''), (''0252'', ''Egg Production''),
             (''0253'', ''Turkey Operations'')]"

definition sic_name :: "string \<Rightarrow> string" where
  "sic_name sic_code = (case SIC_NAMES sic_code of None \<Rightarrow> sic_code | Some n \<Rightarrow> n)"

text \<open>\<open>float(x) if x else None\<close>; \<open>Inl ValueError\<close> when \<open>float\<close> raises.\<close>

definition float_if :: "python \<Rightarrow> jval \<Rightarrow> exn + pyfloat option" where
  "float_if P x =
     (if truthy x
      then (case py_float P (py_str x) of None \<Rightarrow> Inl ValueError | Some f \<Rightarrow> Inr (Some f))
      else Inr None)"

text \<open>
  The coordinates: both conversions sit in one \<open>try\<close>, and the handler sets both to
  \<open>None\<close>.
\<close>

definition lat_lon :: "python \<Rightarrow> jval \<Rightarrow> jval \<Rightarrow> pyfloat option \<times> pyfloat option" where
  "lat_lon P lat lon =
     (case float_if P lat of
        Inl e \<Rightarrow> (None, None)
      | Inr la \<Rightarrow> (case float_if P lon of Inl e \<Rightarrow> (None, None) | Inr lo \<Rightarrow> (la, lo)))"

text \<open>The two compliance signals and the severity derived from them.\<close>

definition snc_flagged :: "python \<Rightarrow> jval \<Rightarrow> bool" where
  "snc_flagged P snc_status \<longleftrightarrow>
     truthy snc_status \<and> contains ''S'' (py_upper P (py_str snc_status))"

definition reports_violation :: "python \<Rightarrow> jval \<Rightarrow> bool" where
  "reports_violation P compliance_status \<longleftrightarrow>
     truthy compliance_status \<and> contains ''violation'' (py_lower P (py_str compliance_status))"

definition echo_severity :: "python \<Rightarrow> jval \<Rightarrow> jval \<Rightarrow> string" where
  "echo_severity P snc_status compliance_status =
     (if snc_flagged P snc_status then ''High''
      else if reports_violation P compliance_status then ''Medium''
      else ''Low'')"

text \<open>\<open>int(qtrs_nc) if qtrs_nc else 0\<close>, with \<open>0\<close> when \<open>int\<close> raises \<open>ValueError\<close>.\<close>

definition quarters :: "python \<Rightarrow> jval \<Rightarrow> int" where
  "quarters P qtrs_nc =
     (if truthy qtrs_nc
      then (case py_int P (py_str qtrs_nc) of None \<Rightarrow> 0 | Some n \<Rightarrow> n)
      else 0)"

definition echo_desc_parts :: "python \<Rightarrow> payload \<Rightarrow> string \<Rightarrow> jval list" where
  "echo_desc_parts P facility sic_code =
     (let compliance_status = get facility ''CWPComplianceStatus'' (JStr []);
          qtrs = quarters P (get facility ''CWPQtrsWithNC'' (JStr ''0''));
          permit_status = get facility ''CWPPermitStatusDesc'' (JStr []);
          formal_ea_count = get facility ''CWPFormalEaCount'' (JStr ''0'')
      in [JStr (''CAFO Type: '' @ sic_name sic_code),
          part ''Permit Status: '' permit_status,
          part ''Compliance: '' compliance_status,
          (if qtrs > 0 then JStr (''Quarters in Non-Compliance: '' @ str_int qtrs) else JNull),
          (if truthy formal_ea_count \<and> formal_ea_count \<noteq> JStr ''0''
           then JStr (''Formal Enforcement Actions: '' @ py_str formal_ea_count) else JNull)])"

text \<open>
  The penalty: \<open>float(str(p).replace("$", "").replace(",", ""))\<close> when the field is
  truthy, \<open>None\<close> when \<open>float\<close> raises.
\<close>

definition penalty :: "python \<Rightarrow> jval \<Rightarrow> pyfloat option" where
  "penalty P total_penalties =
     (if truthy total_penalties
      then py_float P (filter (\<lambda>c. c \<noteq> CHR '','')
                         (filter (\<lambda>c. c \<noteq> CHR ''$'') (py_str total_penalties)))
      else None)"

text \<open>\<open>facility_to_violation\<close>; \<open>None\<close> is the dropped record.\<close>

definition facility_to_violation :: "python \<Rightarrow> payload \<Rightarrow> string \<Rightarrow> violation option" where
  "facility_to_violation P facility sic_code =
     (let name = get facility ''CWPName'' (JStr ''Unknown'');
          src_id = get facility ''SourceID'' (JStr []);
          street = get facility ''CWPStreet'' (JStr []);
          city = get facility ''CWPCity'' (JStr []);
          st = get facility ''CWPState'' (JStr []);
          cnty = get facility ''CWPCounty'' (JStr []);
          lat = get facility ''FacLat'' JNull;
          lon = get facility ''FacLong'' JNull;
          compliance_status = get facility ''CWPComplianceStatus'' (JStr []);
          snc_status = get facility ''CWPSNCStatus'' (JStr []);
          qtrs_nc = get facility ''CWPQtrsWithNC'' (JStr ''0'');
          last_inspection = get facility ''CWPDateLastInspection'' (JStr []);
          last_penalty_date = get facility ''CWPDateLastPenalty'' (JStr []);
          total_penalties = get facility ''CWPTotalPenalties'' (JStr []);
          loc = join '', '' (filter_none [street, city, st]);
          ll = lat_lon P lat lon;
          sev = echo_severity P snc_status compliance_status;
          qtrs = quarters P qtrs_nc
      in if qtrs = 0 \<and> sev = ''Low'' \<and> \<not> truthy last_penalty_date then None
         else Some \<lparr>facility_name = name,
                    location = JStr loc,
                    state = st,
                    county = cnty,
                    latitude = fst ll,
                    longitude = snd ll,
                    violation_type = JStr ''Clean Water Act - CAFO'',
                    date = py_or last_penalty_date (py_or last_inspection JNull),
                    source = JStr ''EPA ECHO'',
                    source_id = JStr (''ECHO-CWA-'' @ py_str src_id),
                    description = JStr (join ''. '' (filter_none (echo_desc_parts P facility sic_code))),
                    severity = JStr sev,
                    penalty_amount = penalty P total_penalties\<rparr>)"

text \<open>
  The ISO calendar-date layout \<open>YYYY-MM-DD\<close>: ten characters, digits except for the
  two hyphens.
\<close>

definition is_digit :: "char \<Rightarrow> bool" where
  "is_digit c \<longleftrightarrow> c \<in> set ''0123456789''"

definition iso_date :: "string \<Rightarrow> bool" where
  "iso_date s \<longleftrightarrow>
     length s = 10 \<and> list_all is_digit (take 4 s) \<and> s ! 4 = CHR ''-''
     \<and> list_all is_digit (take 2 (drop 5 s)) \<and> s ! 7 = CHR ''-''
     \<and> list_all is_digit (drop 8 s)"

text \<open>
  An instance of the built-ins for evaluating examples: case mapping and decimal
  numerals as Python has them on ASCII letters and digits; \<open>float\<close> accepts nothing
  (the examples carry no coordinates and no penalty amounts).
\<close>

definition ascii_upper :: "char \<Rightarrow> char" where
  "ascii_upper c =
     (case map_of (zip ''abcdefghijklmnopqrstuvwxyz'' ''ABCDEFGHIJKLMNOPQRSTUVWXYZ'') c of
        None \<Rightarrow> c | Some u \<Rightarrow> u)"

definition ascii_lower :: "char \<Rightarrow> char" where
  "ascii_lower c =
     (case map_of (zip ''ABCDEFGHIJKLMNOPQRSTUVWXYZ'' ''abcdefghijklmnopqrstuvwxyz'') c of
        None \<Rightarrow> c | Some l \<Rightarrow> l)"

definition digit_value :: "char \<Rightarrow> int" where
  "digit_value c =
     (case map_of (zip ''0123456789'' [0, 1, 2, 3, 4, 5, 6, 7, 8, 9]) c of
        None \<Rightarrow> 0 | Some d \<Rightarrow> d)"

definition decimal :: "string \<Rightarrow> int option" where
  "decimal s =
     (if s \<noteq> [] \<and> list_all is_digit s
      then Some (foldl (\<lambda>n c. 10 * n + digit_value c) 0 s) else None)"

definition ascii_python :: python where
  "ascii_python =
     \<lparr>py_float = (\<lambda>s. None), py_int = decimal,
      py_upper = map ascii_upper, py_lower = map ascii_lower\<rparr>"

text \<open>Example payloads.\<close>

definition quiet_facility :: payload where
  "quiet_facility =
     [''CWPName'' \<mapsto> JStr ''Green Acres Feedlot'', ''SourceID'' \<mapsto> JStr ''IA0001'',
      ''CWPState'' \<mapsto> JStr ''IA'', ''CWPQtrsWithNC'' \<mapsto> JStr ''0'',
      ''CWPSNCStatus'' \<mapsto> JNull, ''CWPComplianceStatus'' \<mapsto> JStr ''Unknown'',
      ''CWPDateLastPenalty'' \<mapsto> JNull]"

definition penalised_facility :: payload where
  "penalised_facility =
     [''CWPName'' \<mapsto> JStr ''Green Acres Feedlot'', ''SourceID'' \<mapsto> JStr ''IA0001'',
      ''CWPState'' \<mapsto> JStr ''IA'', ''CWPQtrsWithNC'' \<mapsto> JStr ''0'',
      ''CWPSNCStatus'' \<mapsto> JNull, ''CWPComplianceStatus'' \<mapsto> JNull,
      ''CWPDateLastPenalty'' \<mapsto> JStr ''06/15/2023'']"

definition wordy_facility :: payload where
  "wordy_facility = penalised_facility(''CWPPermitStatusDesc'' \<mapsto> JStr (replicate 2001 CHR ''x''))"

definition sample_recall :: payload where
  "sample_recall =
     [''recalling_firm'' \<mapsto> JStr ''Acme Meats'', ''city'' \<mapsto> JStr ''Omaha'',
      ''state'' \<mapsto> JStr ''NE'', ''classification'' \<mapsto> JStr ''Class I'',
      ''recall_number'' \<mapsto> JStr ''F-0001-2023'',
      ''recall_initiation_date'' \<mapsto> JStr ''20230615'',
      ''product_description'' \<mapsto> JStr ''Ground beef'']"

definition long_recall :: payload where
  "long_recall = sample_recall(''reason_for_recall'' \<mapsto> JStr (replicate 3000 CHR ''x''))"

section \<open>The upstream services and the world\<close>

text \<open>
  The requests the fetchers issue: the facility registry's initiating query for an
  industry code, its page fetch by job id and page number, and the recall search with
  its search string, limit and offset.
\<close>

datatype request =
    GetFacilities string
  | GetQid jval nat
  | Enforcement string nat nat

text \<open>
  What the run leaves behind, in order: requests, sleeps (in milliseconds), calls of
  the recall normalizer, calls of \<open>upsert_violation\<close>, commits.
\<close>

datatype event =
    Http request
  | Sleep nat
  | Normalized payload
  | Upserted violation
  | Committed

text \<open>
  The \<open>Results\<close> object of a facility-registry response; \<open>None\<close> is a missing key
  (a response without \<open>Results\<close> is the object with every key missing). For
  \<open>Facilities\<close>, \<open>None\<close> also stands for null.
\<close>

record echo_results =
  Message :: "jval option"
  QueryRows :: "jval option"
  QueryID :: "jval option"
  Facilities :: "payload list option"

text \<open>
  A request either fails inside the fetcher's \<open>try\<close> (transport error, HTTP error
  status, undecodable body) or yields the decoded body. A service is a function from
  the number of requests made so far and the request to the outcome, so a run is
  determined by the service and running again from the same count replays the same
  responses.
\<close>

datatype 'a outcome = Failed | Json 'a

type_synonym echo_api = "nat \<Rightarrow> request \<Rightarrow> echo_results outcome"

type_synonym fda_api = "nat \<Rightarrow> request \<Rightarrow> payload list option outcome"

record world =
  calls :: nat
  trace :: "event list"
  db :: table

definition log :: "event \<Rightarrow> world \<Rightarrow> world" where
  "log e w = w\<lparr>trace := trace w @ [e]\<rparr>"

definition sleep :: "nat \<Rightarrow> world \<Rightarrow> world" where
  "sleep ms w = log (Sleep ms) w"

definition http_get :: "(nat \<Rightarrow> request \<Rightarrow> 'a) \<Rightarrow> request \<Rightarrow> world \<Rightarrow> 'a \<times> world" where
  "http_get api req w = (api (calls w) req, log (Http req) (w\<lparr>calls := Suc (calls w)\<rparr>))"

text \<open>
  A connection sees the committed table and its own writes; \<open>commit\<close> makes its rows
  the committed table. A connection abandoned by an exception commits nothing.
\<close>

definition get_connection :: "world \<Rightarrow> table" where
  "get_connection w = db w"

definition commit :: "table \<Rightarrow> world \<Rightarrow> world" where
  "commit c w = log Committed (w\<lparr>db := c\<rparr>)"

fun requests :: "event list \<Rightarrow> request list" where
  "requests [] = []"
| "requests (Http r # es) = r # requests es"
| "requests (e # es) = requests es"

fun sleeps :: "event list \<Rightarrow> nat list" where
  "sleeps [] = []"
| "sleeps (Sleep ms # es) = ms # sleeps es"
| "sleeps (e # es) = sleeps es"

fun normalized :: "event list \<Rightarrow> payload list" where
  "normalized [] = []"
| "normalized (Normalized r # es) = r # normalized es"
| "normalized (e # es) = normalized es"

fun upserted :: "event list \<Rightarrow> violation list" where
  "upserted [] = []"
| "upserted (Upserted v # es) = v # upserted es"
| "upserted (e # es) = upserted es"

section \<open>The paginated recall fetcher (scrapers/fsis\_recalls.py)\<close>

definition SEARCH_QUERIES :: "string list" where
  \<open>SEARCH_QUERIES =
     [''product_description:"chicken"'', ''product_description:"beef"'',
      ''product_description:"pork"'', ''product_description:"turkey"'',
      ''product_description:"poultry"'', ''product_description:"meat"'',
      ''product_description:"sausage"'', ''product_description:"ground beef"'',
      ''reason_for_recall:"FSIS"'', ''reason_for_recall:"salmonella"'',
      ''reason_for_recall:"E. coli"'', ''reason_for_recall:"listeria"'']\<close>

text \<open>
  \<open>fetch_recalls\<close>: every failure, and a body without \<open>results\<close>, is the empty
  list.
\<close>

definition fetch_recalls :: "fda_api \<Rightarrow> string \<Rightarrow> nat \<Rightarrow> nat \<Rightarrow> world \<Rightarrow> payload list \<times> world" where
  "fetch_recalls fda search_query limit skip w =
     (case http_get fda (Enforcement search_query (min limit 100) skip) w of
        (Failed, w1) \<Rightarrow> ([], w1)
      | (Json None, w1) \<Rightarrow> ([], w1)
      | (Json (Some results), w1) \<Rightarrow> (results, w1))"

text \<open>The local variables of \<open>scrape_fsis_recalls\<close> that its loops update.\<close>

record fsis_state =
  total_inserted :: nat
  seen_ids :: "jval set"
  conn :: table

definition recall_num :: "payload \<Rightarrow> jval" where
  "recall_num recall = get recall ''recall_number'' (JStr [])"

text \<open>
  The body of \<open>for recall in results\<close>. The call of the normalizer is outside the
  \<open>try\<close>, so its exception leaves the function; the \<open>try\<close> around the upsert has
  nothing to catch, since the modelled upsert does not raise.
\<close>

definition process_recall :: "fsis_state \<Rightarrow> payload \<Rightarrow> world \<Rightarrow> (exn + fsis_state) \<times> world" where
  "process_recall st recall w =
     (if recall_num recall \<in> seen_ids st then (Inr st, w)
      else (case recall_to_violation recall of
              Inl e \<Rightarrow> (Inl e, log (Normalized recall) w)
            | Inr v \<Rightarrow>
                (Inr \<lparr>total_inserted = total_inserted st + 1,
                      seen_ids = insert (recall_num recall) (seen_ids st),
                      conn = snd (upsert_violation (conn st) v)\<rparr>,
                 log (Upserted v) (log (Normalized recall) w))))"

fun process_results :: "fsis_state \<Rightarrow> payload list \<Rightarrow> world \<Rightarrow> (exn + fsis_state) \<times> world" where
  "process_results st [] w = (Inr st, w)"
| "process_results st (recall # results) w =
     (case process_recall st recall w of
        (Inl e, w1) \<Rightarrow> (Inl e, w1)
      | (Inr st1, w1) \<Rightarrow> process_results st1 results w1)"

text \<open>The loop \<open>while skip < max_per_query\<close> for one search query.\<close>

function paginate ::
  "fda_api \<Rightarrow> string \<Rightarrow> nat \<Rightarrow> nat \<Rightarrow> fsis_state \<Rightarrow> world \<Rightarrow> (exn + fsis_state) \<times> world" where
  "paginate fda query max_per_query skip st w =
     (if skip < max_per_query
      then (case fetch_recalls fda query 100 skip w of
              (results, w1) \<Rightarrow>
                if results = [] then (Inr st, w1)
                else (case process_results st results w1 of
                        (Inl e, w2) \<Rightarrow> (Inl e, w2)
                      | (Inr st1, w2) \<Rightarrow>
                          if length results < 100 then (Inr st1, w2)
                          else paginate fda query max_per_query (skip + length results) st1
                                 (sleep 300 w2)))
      else (Inr st, w))"
  by pat_completeness auto
termination
  by (relation "measure (\<lambda>(fda, query, max_per_query, skip, st, w). max_per_query - skip)") auto

declare paginate.simps [simp del]

text \<open>The loop \<open>for query in SEARCH_QUERIES\<close>: paginate, commit, pause.\<close>

fun query_loop ::
  "fda_api \<Rightarrow> nat \<Rightarrow> fsis_state \<Rightarrow> string list \<Rightarrow> world \<Rightarrow> (exn + fsis_state) \<times> world" where
  "query_loop fda max_per_query st [] w = (Inr st, w)"
| "query_loop fda max_per_query st (query # queries) w =
     (case paginate fda query max_per_query 0 st w of
        (Inl e, w1) \<Rightarrow> (Inl e, w1)
      | (Inr st1, w1) \<Rightarrow>
          query_loop fda max_per_query st1 queries (sleep 500 (commit (conn st1) w1)))"

definition scrape_fsis_recalls :: "fda_api \<Rightarrow> nat \<Rightarrow> world \<Rightarrow> (exn + nat) \<times> world" where
  "scrape_fsis_recalls fda max_per_query w =
     (case query_loop fda max_per_query
             \<lparr>total_inserted = 0, seen_ids = {}, conn = init_db (get_connection w)\<rparr>
             SEARCH_QUERIES w of
        (Inl e, w1) \<Rightarrow> (Inl e, w1)
      | (Inr st, w1) \<Rightarrow> (Inr (total_inserted st), w1))"

section \<open>The submit/poll/paginate fetcher (scrapers/epa\_echo.py)\<close>

definition CAFO_SIC_CODES :: "string list" where
  "CAFO_SIC_CODES = [''0211'', ''0213'', ''0251'', ''0252'', ''0253'']"

definition working :: "echo_results \<Rightarrow> bool" where
  "working results \<longleftrightarrow> Message results = Some (JStr ''Working'')"

text \<open>
  The loop \<open>while results.get("Message") == "Working" and poll_attempts < 12\<close>. A
  failed poll keeps the previous \<open>results\<close> and counts as an attempt.
\<close>

function poll ::
  "echo_api \<Rightarrow> string \<Rightarrow> echo_results \<Rightarrow> nat \<Rightarrow> world \<Rightarrow> echo_results \<times> nat \<times> world" where
  "poll echo sic_code results poll_attempts w =
     (if working results \<and> poll_attempts < 12
      then (case http_get echo (GetFacilities sic_code) (sleep 5000 w) of
              (Failed, w1) \<Rightarrow> poll echo sic_code results (poll_attempts + 1) w1
            | (Json results1, w1) \<Rightarrow> poll echo sic_code results1 (poll_attempts + 1) w1)
      else (results, poll_attempts, w))"
  by pat_completeness auto
termination
  by (relation "measure (\<lambda>(echo, sic_code, results, poll_attempts, w). 12 - poll_attempts)") auto

declare poll.simps [simp del]

text \<open>
  \<open>int(results.get("QueryRows", 0))\<close>: \<open>0\<close> for a missing key, \<open>TypeError\<close> for
  null, \<open>ValueError\<close> for a string that is no integer. Neither is caught in
  \<open>fetch_facilities_for_sic\<close>.
\<close>

definition query_rows :: "python \<Rightarrow> echo_results \<Rightarrow> exn + int" where
  "query_rows P results =
     (case QueryRows results of
        None \<Rightarrow> Inr 0
      | Some JNull \<Rightarrow> Inl TypeError
      | Some (JStr s) \<Rightarrow> (case py_int P s of None \<Rightarrow> Inl ValueError | Some n \<Rightarrow> Inr n))"

definition query_id :: "echo_results \<Rightarrow> jval" where
  "query_id results = (case QueryID results of None \<Rightarrow> JNull | Some q \<Rightarrow> q)"

text \<open>
  \<open>for attempt in range(6)\<close> for one page; the fourth argument counts the attempts
  that remain. A failed request is followed by a 3 s pause, a page that is still
  \<open>Working\<close> by a 5 s pause; any other page ends the attempts.
\<close>

fun fetch_page ::
  "echo_api \<Rightarrow> jval \<Rightarrow> nat \<Rightarrow> nat \<Rightarrow> payload list \<Rightarrow> world \<Rightarrow> payload list \<times> world" where
  "fetch_page echo qid page 0 all_facilities w = (all_facilities, w)"
| "fetch_page echo qid page (Suc n) all_facilities w =
     (case http_get echo (GetQid qid page) w of
        (Failed, w1) \<Rightarrow> fetch_page echo qid page n all_facilities (sleep 3000 w1)
      | (Json page_results, w1) \<Rightarrow>
          if working page_results
          then fetch_page echo qid page n all_facilities (sleep 5000 w1)
          else (case Facilities page_results of
                  None \<Rightarrow> (all_facilities, w1)
                | Some facilities \<Rightarrow> (all_facilities @ facilities, w1)))"

fun fetch_pages ::
  "echo_api \<Rightarrow> jval \<Rightarrow> nat list \<Rightarrow> payload list \<Rightarrow> world \<Rightarrow> payload list \<times> world" where
  "fetch_pages echo qid [] all_facilities w = (all_facilities, w)"
| "fetch_pages echo qid (page # pages) all_facilities w =
     (case fetch_page echo qid page 6 all_facilities w of
        (all1, w1) \<Rightarrow> fetch_pages echo qid pages all1 (sleep 1000 w1))"

definition fetch_facilities_for_sic ::
  "python \<Rightarrow> echo_api \<Rightarrow> string \<Rightarrow> nat \<Rightarrow> world \<Rightarrow> (exn + payload list) \<times> world" where
  "fetch_facilities_for_sic P echo sic_code max_facilities w =
     (case http_get echo (GetFacilities sic_code) w of
        (Failed, w1) \<Rightarrow> (Inr [], w1)
      | (Json data, w1) \<Rightarrow>
          (case poll echo sic_code data 0 w1 of
             (results, poll_attempts, w2) \<Rightarrow>
               (case query_rows P results of
                  Inl e \<Rightarrow> (Inl e, w2)
                | Inr total_rows \<Rightarrow>
                    if total_rows = 0 \<or> \<not> truthy (query_id results) then (Inr [], w2)
                    else (let pages_to_fetch = (min total_rows (int max_facilities) + 99) div 100
                          in case fetch_pages echo (query_id results)
                                    [1 ..< nat (pages_to_fetch + 1)] [] w2 of
                               (all_facilities, w3) \<Rightarrow>
                                 (Inr (take max_facilities all_facilities), w3)))))"

text \<open>The loops of \<open>scrape_epa_echo\<close>; the state is \<open>(total_inserted, conn)\<close>.\<close>

fun upsert_facilities ::
  "python \<Rightarrow> string \<Rightarrow> nat \<times> table \<Rightarrow> payload list \<Rightarrow> world \<Rightarrow> (nat \<times> table) \<times> world" where
  "upsert_facilities P sic_code st [] w = (st, w)"
| "upsert_facilities P sic_code st (facility # facilities) w =
     (case facility_to_violation P facility sic_code of
        None \<Rightarrow> upsert_facilities P sic_code st facilities w
      | Some v \<Rightarrow>
          upsert_facilities P sic_code (fst st + 1, snd (upsert_violation (snd st) v))
            facilities (log (Upserted v) w))"

fun sic_loop ::
  "python \<Rightarrow> echo_api \<Rightarrow> nat \<Rightarrow> nat \<times> table \<Rightarrow> string list \<Rightarrow> world
     \<Rightarrow> (exn + nat \<times> table) \<times> world" where
  "sic_loop P echo max_per_sic st [] w = (Inr st, w)"
| "sic_loop P echo max_per_sic st (sic_code # codes) w =
     (case fetch_facilities_for_sic P echo sic_code max_per_sic w of
        (Inl e, w1) \<Rightarrow> (Inl e, w1)
      | (Inr facilities, w1) \<Rightarrow>
          (case upsert_facilities P sic_code st facilities w1 of
             (st1, w2) \<Rightarrow>
               sic_loop P echo max_per_sic st1 codes (sleep 1000 (commit (snd st1) w2))))"

definition scrape_epa_echo :: "python \<Rightarrow> echo_api \<Rightarrow> nat \<Rightarrow> world \<Rightarrow> (exn + nat) \<times> world" where
  "scrape_epa_echo P echo max_per_sic w =
     (case sic_loop P echo max_per_sic (0, init_db (get_connection w)) CAFO_SIC_CODES w of
        (Inl e, w1) \<Rightarrow> (Inl e, w1)
      | (Inr st, w1) \<Rightarrow> (Inr (fst st), w1))"

section \<open>The orchestrator (scrape.py)\<close>

text \<open>
  Modelled from the spec: the seed loader \<open>scrapers/seed_data.py\<close> is not among the
  sources. It "supplies a fixed list of already-canonical records to the same upsert
  contract", "always succeeds" and returns a record count: it upserts its records,
  commits, and returns how many records it holds.
\<close>

definition seed_database :: "violation list \<Rightarrow> world \<Rightarrow> nat \<times> world" where
  "seed_database seed w =
     (length seed, commit (upsert_all seed (init_db (get_connection w))) (foldl (\<lambda>w v. log (Upserted v) w) w seed))"

text \<open>
  The 90 s alarm. Before the facility step \<open>main\<close> installs a handler for \<open>SIGALRM\<close>
  that raises \<open>ScraperTimeout\<close> and arms the alarm; the alarm is cancelled by
  \<open>signal.alarm(0)\<close> at the end of the \<open>try\<close> body and again in the \<open>finally\<close>
  clause. When the signal arrives is for the environment to say, and the exception is
  raised wherever the program is at that moment:
  \<^item> \<open>Inside k\<close>: while \<open>scrape_epa_echo\<close> is running, at its \<open>k\<close>-th action;
  \<^item> \<open>Back_in_main counted\<close>: after \<open>scrape_epa_echo\<close> has returned or raised, and
    before \<open>main\<close> has reached a \<open>signal.alarm(0)\<close>; when the step returned, \<open>counted\<close>
    tells whether \<open>total += count\<close> was already executed;
  \<^item> \<open>Not_delivered\<close>: not before the alarm is cancelled.
\<close>

datatype alarm = Inside nat | Back_in_main bool | Not_delivered

fun inside :: "alarm \<Rightarrow> nat option" where
  "inside (Inside k) = Some k"
| "inside a = None"

text \<open>
  \<open>main\<close>, over the three steps it calls. A fetcher step returns its count or raises.
  The recall step runs without an alarm, and its \<open>try\<close> catches every \<open>Exception\<close>.
  The facility step is told where the signal is delivered inside it, if it is; since
  \<open>ScraperTimeout\<close> is an \<open>Exception\<close>, the step may catch it in a handler of its
  own and go on, or let it out. After the step:
  \<^item> it returned and the signal arrives in the rest of the \<open>try\<close> body: the
    \<open>ScraperTimeout\<close> is caught by \<open>except ScraperTimeout\<close>, and the total holds the
    step's count only if \<open>total += count\<close> was already executed;
  \<^item> it raised (the alarm's \<open>ScraperTimeout\<close> or any other \<open>Exception\<close>) and no
    signal arrives afterwards: the handler logs a warning, the total is unchanged;
  \<^item> it raised an exception of its own while the alarm was still armed, and the signal
    arrives while the \<open>except Exception\<close> handler or the \<open>finally\<close> clause is running,
    before \<open>signal.alarm(0)\<close>: the \<open>ScraperTimeout\<close> is raised outside the \<open>try\<close>
    body, no handler catches it, and it leaves \<open>main\<close> before the total is reported.
  The result is the reported total, or the exception that leaves \<open>main\<close>.
\<close>

definition main ::
  "('w \<Rightarrow> nat \<times> 'w) \<Rightarrow> ('w \<Rightarrow> (exn + nat) \<times> 'w) \<Rightarrow> (nat option \<Rightarrow> 'w \<Rightarrow> (exn + nat) \<times> 'w)
     \<Rightarrow> alarm \<Rightarrow> 'w \<Rightarrow> (exn + nat) \<times> 'w" where
  "main seed_step fsis_step epa_step alarm w =
     (let total = 0;
          (count, w1) = seed_step w;
          total = total + count;
          (r2, w2) = fsis_step w1;
          total = (case r2 of Inr count \<Rightarrow> total + count | Inl e \<Rightarrow> total);
          (r3, w3) = epa_step (inside alarm) w2
      in case r3 of
           Inr count \<Rightarrow>
             (case alarm of
                Back_in_main counted \<Rightarrow> (Inr (if counted then total + count else total), w3)
              | _ \<Rightarrow> (Inr (total + count), w3))
         | Inl e \<Rightarrow>
             (case alarm of
                Back_in_main counted \<Rightarrow> (Inl ScraperTimeout, w3)
              | _ \<Rightarrow> (Inr total, w3)))"


section \<open>Notions used in the statements about the recall fetcher\<close>

text \<open>
  The keys of the payloads handed to the normalizer in a run are pairwise distinct; the
  upserted records are, in order, the normalizer's results for those payloads.
\<close>

definition keys_distinct :: "world \<Rightarrow> bool" where
  "keys_distinct w \<longleftrightarrow> distinct (map recall_num (normalized (trace w)))"

definition successes :: "payload list \<Rightarrow> violation list" where
  "successes rs = concat (map (\<lambda>r. case recall_to_violation r of Inl e \<Rightarrow> [] | Inr v \<Rightarrow> [v]) rs)"

definition fsis_inv :: "fsis_state \<Rightarrow> world \<Rightarrow> bool" where
  "fsis_inv st w \<longleftrightarrow>
     keys_distinct w \<and> recall_num ` set (normalized (trace w)) \<subseteq> seen_ids st
     \<and> upserted (trace w) = successes (normalized (trace w))"

definition fsis_post :: "(exn + fsis_state) \<times> world \<Rightarrow> bool" where
  "fsis_post rw \<longleftrightarrow>
     keys_distinct (snd rw) \<and> upserted (trace (snd rw)) = successes (normalized (trace (snd rw)))
     \<and> (case fst rw of Inl e \<Rightarrow> True | Inr st \<Rightarrow> fsis_inv st (snd rw))"

text \<open>
  A payload is well formed when the normalizer accepts it: its \<open>state\<close> is not null.
  A query has pages of 100 when every request for it, at whatever offset and time,
  returns exactly 100 results; it has full pages when these are also well formed.
\<close>

definition well_formed :: "payload \<Rightarrow> bool" where
  "well_formed recall \<longleftrightarrow> get recall ''state'' (JStr []) \<noteq> JNull"

definition pages_of_100 :: "fda_api \<Rightarrow> string \<Rightarrow> bool" where
  "pages_of_100 fda q \<longleftrightarrow>
     (\<forall>i skip. \<exists>rs. fda i (Enforcement q 100 skip) = Json (Some rs) \<and> length rs = 100)"

definition full_pages :: "fda_api \<Rightarrow> string \<Rightarrow> bool" where
  "full_pages fda q \<longleftrightarrow>
     (\<forall>i skip. \<exists>rs. fda i (Enforcement q 100 skip) = Json (Some rs) \<and> length rs = 100
        \<and> (\<forall>r \<in> set rs. well_formed r))"

text \<open>Example worlds, states and services.\<close>

definition fresh_world :: world where
  "fresh_world = \<lparr>calls = 0, trace = [], db = []\<rparr>"

definition empty_state :: fsis_state where
  "empty_state = \<lparr>total_inserted = 0, seen_ids = {}, conn = []\<rparr>"

definition seen_state :: fsis_state where
  "seen_state = \<lparr>total_inserted = 1, seen_ids = {JStr []}, conn = []\<rparr>"

definition anonymous_recall :: payload where
  "anonymous_recall = [''recalling_firm'' \<mapsto> JStr ''Acme Meats'', ''state'' \<mapsto> JStr ''NE'']"

definition null_state_recall :: payload where
  "null_state_recall = sample_recall(''state'' \<mapsto> JNull)"

definition full_fda :: fda_api where
  "full_fda i req = Json (Some (replicate 100 sample_recall))"

definition short_fda :: fda_api where
  "short_fda i req = Json (Some [sample_recall])"

definition null_state_fda :: fda_api where
  "null_state_fda i req = Json (Some (replicate 100 null_state_recall))"

definition anonymous_fda :: fda_api where
  "anonymous_fda i req =
     (if i = 0 then Json (Some [anonymous_recall, anonymous_recall, sample_recall])
      else Json (Some []))"

section \<open>Notions used in the statements about the facility fetcher and the orchestrator\<close>

text \<open>
  A category whose initiating query reports \<open>Working\<close> on every attempt. The fetcher
  issues the initiating query once and then polls up to 12 times, so in a world in which
  \<open>calls w\<close> requests have been made the response to the twelfth poll is the one with
  index \<open>calls w + 12\<close>.
\<close>

definition always_working :: "echo_api \<Rightarrow> string \<Rightarrow> bool" where
  "always_working echo sic_code \<longleftrightarrow>
     (\<forall>i. \<exists>env. echo i (GetFacilities sic_code) = Json env \<and> working env)"

definition last_poll :: "echo_api \<Rightarrow> string \<Rightarrow> world \<Rightarrow> echo_results outcome" where
  "last_poll echo sic_code w = echo (calls w + 12) (GetFacilities sic_code)"

text \<open>
  A response carries no job when its row count is an integer (the key is missing, or
  its string reads as an integer) and that integer is zero or the job id is missing,
  null or empty. It carries a job when its row count is a positive integer and its job
  id is a non-empty string. A response whose row count is null or does not read as an
  integer is neither.
\<close>

definition no_job :: "python \<Rightarrow> echo_results \<Rightarrow> bool" where
  "no_job P env \<longleftrightarrow>
     (case query_rows P env of Inl e \<Rightarrow> False | Inr n \<Rightarrow> n = 0 \<or> \<not> truthy (query_id env))"

definition has_job :: "python \<Rightarrow> echo_results \<Rightarrow> bool" where
  "has_job P env \<longleftrightarrow>
     (case query_rows P env of Inl e \<Rightarrow> False | Inr n \<Rightarrow> 0 < n \<and> truthy (query_id env))"

text \<open>
  \<open>k\<close> poll attempts: each a 5 s sleep followed by the initiating query again. Page
  events are the page requests by job id and the pauses between them.
\<close>

definition polls :: "string \<Rightarrow> nat \<Rightarrow> event list" where
  "polls sic_code k = concat (replicate k [Sleep 5000, Http (GetFacilities sic_code)])"

fun page_event :: "event \<Rightarrow> bool" where
  "page_event (Http (GetQid qid page)) = True"
| "page_event (Sleep ms) = True"
| "page_event e = False"

text \<open>What a step adds to the orchestrator's total: its count, or nothing if it raised.\<close>

definition contribution :: "exn + nat \<Rightarrow> nat" where
  "contribution r = (case r of Inl e \<Rightarrow> 0 | Inr count \<Rightarrow> count)"

text \<open>
  Example services: one that only ever answers \<open>Working\<close>; one whose \<open>Working\<close>
  answer carries a job id and a row count and whose page holds a facility; and one
  whose \<open>Working\<close> answer has a null row count.
\<close>

definition pending_echo :: echo_api where
  "pending_echo i req =
     Json \<lparr>Message = Some (JStr ''Working''), QueryRows = None, QueryID = None,
           Facilities = None\<rparr>"

definition busy_envelope :: echo_results where
  "busy_envelope =
     \<lparr>Message = Some (JStr ''Working''), QueryRows = Some (JStr ''1''),
      QueryID = Some (JStr ''42''), Facilities = None\<rparr>"

definition busy_echo :: echo_api where
  "busy_echo i req =
     (case req of
        GetFacilities sic_code \<Rightarrow> Json busy_envelope
      | GetQid qid page \<Rightarrow>
          Json \<lparr>Message = None, QueryRows = None, QueryID = None,
                Facilities = Some [penalised_facility]\<rparr>
      | Enforcement q limit skip \<Rightarrow> Failed)"

definition stalled_envelope :: echo_results where
  "stalled_envelope =
     \<lparr>Message = Some (JStr ''Working''), QueryRows = Some JNull, QueryID = None,
      Facilities = None\<rparr>"

definition stalled_echo :: echo_api where
  "stalled_echo i req = Json stalled_envelope"

section \<open>Notions used in the statements about repeated runs\<close>


definition with_conn :: "violation list \<Rightarrow> table \<Rightarrow> exn + fsis_state \<Rightarrow> exn + fsis_state" where
  "with_conn U c res = map_sum id (\<lambda>s. s\<lparr>conn := upsert_all U c\<rparr>) res"





definition log_upserts :: "violation list \<Rightarrow> world \<Rightarrow> world" where
  "log_upserts vs w = foldl (\<lambda>w v. log (Upserted v) w) w vs"


definition with_table :: "violation list \<Rightarrow> table \<Rightarrow> exn + nat \<times> table \<Rightarrow> exn + nat \<times> table" where
  "with_table U c res = map_sum id (\<lambda>s. (fst s, upsert_all U c)) res"


section \<open>Properties of the store\<close>

lemma upsert_violation_rows:
  "snd (upsert_violation t v) = t \<or> snd (upsert_violation t v) = t @ [v]"
  by (simp add: upsert_violation_def)




lemma upsert_violation_present:
  assumes "keyed v" and "key_present t v"
  shows "upsert_violation t v = (RNone, t)"
proof (cases "source v = JNull")
  case True
  then show ?thesis by (simp add: upsert_violation_def not_null_violation_def)
next
  case False
  with assms have "unique_violation t v"
    by (auto simp: unique_violation_def key_present_def natural_key_def keyed_def)
  then show ?thesis by (simp add: upsert_violation_def)
qed

lemma upsert_violation_absent:
  assumes "\<not> not_null_violation v" and "\<not> key_present t v"
  shows "upsert_violation t v = (RNone, t @ [v])"
proof -
  from assms(2) have "\<not> unique_violation t v"
    by (auto simp: unique_violation_def key_present_def natural_key_def)
  with assms(1) show ?thesis by (simp add: upsert_violation_def)
qed








text \<open>
  C3 (as amended). \<open>upsert_violation\<close> returns \<open>None\<close> in every case, never a
  Boolean. It is an insert-if-absent: a record with non-null name and source whose pair
  is not stored is appended; a record with a present source identifier whose pair is
  stored leaves the table unchanged. The operation is total: a conflict is skipped, not
  raised.
\<close>

theorem upsert_violation_returns_none:
  "fst (upsert_violation t v) = RNone
   \<and> (\<not> not_null_violation v \<and> \<not> key_present t v \<longrightarrow>
        snd (upsert_violation t v) = t @ [v])
   \<and> (keyed v \<and> key_present t v \<longrightarrow> snd (upsert_violation t v) = t)"
proof -
  have a: "fst (upsert_violation t v) = RNone"
    by (simp add: upsert_violation_def)
  have b: "\<not> not_null_violation v \<and> \<not> key_present t v \<longrightarrow>
        snd (upsert_violation t v) = t @ [v]"
    by (simp add: upsert_violation_absent)
  have c: "keyed v \<and> key_present t v \<longrightarrow> snd (upsert_violation t v) = t"
    by (simp add: upsert_violation_present)
  from a b c show ?thesis by blast
qed

theorem upsert_violation_returns_none_witness:
  "\<not> not_null_violation keyed_record \<and> \<not> key_present [] keyed_record
   \<and> upsert_violation [] keyed_record = (RNone, [keyed_record])
   \<and> keyed keyed_record \<and> key_present [keyed_record] keyed_record
   \<and> upsert_violation [keyed_record] keyed_record = (RNone, [keyed_record])"
proof -
  have n: "\<not> not_null_violation keyed_record"
    by (simp add: not_null_violation_def keyed_record_def unkeyed_record_def)
  have a: "\<not> key_present [] keyed_record"
    by (simp add: key_present_def)
  have k: "keyed keyed_record"
    by (simp add: keyed_def keyed_record_def unkeyed_record_def)
  have p: "key_present [keyed_record] keyed_record"
    by (simp add: key_present_def)
  show ?thesis
    using upsert_violation_returns_none [of "[]" keyed_record]
      upsert_violation_returns_none [of "[keyed_record]" keyed_record] n a k p
    by (simp add: prod_eq_iff)
qed

text \<open>
  C3 as stated fails: for a record whose key is absent the row is inserted, yet the
  call does not report \<open>True\<close>.
\<close>

theorem upsert_reports_no_boolean:
  "snd (upsert_violation [] keyed_record) = [keyed_record]
   \<and> fst (upsert_violation [] keyed_record) \<noteq> RBool True
   \<and> fst (upsert_violation [keyed_record] keyed_record) \<noteq> RBool False"
  by (simp add: upsert_violation_def not_null_violation_def unique_violation_def
      keyed_record_def unkeyed_record_def)

section \<open>Properties of the normalizers\<close>

lemma length_truncate_description: "length (truncate_description d) \<le> 2000"
  by (simp add: truncate_description_def)

lemma recall_to_violation_fields:
  assumes "recall_to_violation recall = Inr v"
  shows "description v = JStr (truncate_description (assembled_description recall))"
    and "severity v = JStr (class_severity (get recall ''classification'' (JStr [])))"
    and "date v = recall_date (get recall ''recall_initiation_date'' (JStr []))"
    and "source_id v = JStr (''FDA-'' @ py_str (get recall ''recall_number'' (JStr [])))"
    and "source v = JStr ''USDA FSIS (via openFDA)''"
  using assms by (auto simp: recall_to_violation_def Let_def split: jval.splits)

lemma recall_to_violation_total:
  "get recall ''state'' (JStr []) \<noteq> JNull \<Longrightarrow> \<exists>v. recall_to_violation recall = Inr v"
  by (auto simp: recall_to_violation_def Let_def split: jval.splits)

lemma recall_to_violation_raises:
  "get recall ''state'' (JStr []) = JNull \<Longrightarrow> recall_to_violation recall = Inl TypeError"
  by (simp add: recall_to_violation_def Let_def)

lemma class_severity_default:
  "c \<notin> {JStr ''Class I'', JStr ''Class II'', JStr ''Class III''} \<Longrightarrow> class_severity c = ''Medium''"
  by (auto simp: class_severity_def CLASS_SEVERITY_def split: jval.splits)

lemma sample_recall_normalized:
  "\<exists>v. recall_to_violation sample_recall = Inr v"
  by (rule recall_to_violation_total) (simp add: sample_recall_def get_def)

text \<open>
  C2. The recall normalizer rewrites its 8-character date into the layout
  \<open>YYYY-MM-DD\<close>, but the facility normalizer stores the last-penalty (or
  last-inspection) date exactly as the registry sent it: a facility whose last-penalty
  date is \<open>06/15/2023\<close> gets that string as its date, which is not in ISO form.
\<close>

theorem facility_date_not_converted:
  "\<exists>v. facility_to_violation P penalised_facility sic_code = Some v
       \<and> date v = JStr ''06/15/2023'' \<and> \<not> iso_date ''06/15/2023''"
  by (simp add: facility_to_violation_def Let_def penalised_facility_def get_def py_or_def
      iso_date_def is_digit_def)

text \<open>
  C4. For every facility payload whose quarters in noncompliance are 0, whose
  significant-noncompliance status does not flag it and whose compliance status does not
  report a violation: without a last-penalty date the normalizer returns none, and with
  one it returns a record of severity "Low". The flag and the report are the code's own
  tests (the letter S in the upper-cased status; "violation" in the lower-cased status).
\<close>

theorem facility_without_evidence_dropped:
  assumes "quarters P (get facility ''CWPQtrsWithNC'' (JStr ''0'')) = 0"
    and "\<not> snc_flagged P (get facility ''CWPSNCStatus'' (JStr []))"
    and "\<not> reports_violation P (get facility ''CWPComplianceStatus'' (JStr []))"
  shows "(\<not> truthy (get facility ''CWPDateLastPenalty'' (JStr [])) \<longrightarrow>
            facility_to_violation P facility sic_code = None)
       \<and> (truthy (get facility ''CWPDateLastPenalty'' (JStr [])) \<longrightarrow>
            (\<exists>v. facility_to_violation P facility sic_code = Some v \<and> severity v = JStr ''Low''))"
  using assms by (simp add: facility_to_violation_def Let_def echo_severity_def)

theorem facility_without_evidence_dropped_witness:
  "quarters ascii_python (get quiet_facility ''CWPQtrsWithNC'' (JStr ''0'')) = 0
   \<and> \<not> snc_flagged ascii_python (get quiet_facility ''CWPSNCStatus'' (JStr []))
   \<and> \<not> reports_violation ascii_python (get quiet_facility ''CWPComplianceStatus'' (JStr []))
   \<and> \<not> truthy (get quiet_facility ''CWPDateLastPenalty'' (JStr []))
   \<and> facility_to_violation ascii_python quiet_facility ''0211'' = None
   \<and> quarters ascii_python (get penalised_facility ''CWPQtrsWithNC'' (JStr ''0'')) = 0
   \<and> \<not> snc_flagged ascii_python (get penalised_facility ''CWPSNCStatus'' (JStr []))
   \<and> \<not> reports_violation ascii_python (get penalised_facility ''CWPComplianceStatus'' (JStr []))
   \<and> truthy (get penalised_facility ''CWPDateLastPenalty'' (JStr []))
   \<and> (\<exists>v. facility_to_violation ascii_python penalised_facility ''0211'' = Some v
          \<and> severity v = JStr ''Low'')"
proof -
  have q: "quarters ascii_python (get quiet_facility ''CWPQtrsWithNC'' (JStr ''0'')) = 0"
    by (simp add: quarters_def quiet_facility_def get_def ascii_python_def decimal_def
        is_digit_def digit_value_def)
  have s: "\<not> snc_flagged ascii_python (get quiet_facility ''CWPSNCStatus'' (JStr []))"
    by (simp add: snc_flagged_def quiet_facility_def get_def)
  have r: "\<not> reports_violation ascii_python (get quiet_facility ''CWPComplianceStatus'' (JStr []))"
    by (simp add: reports_violation_def quiet_facility_def get_def ascii_python_def
        ascii_lower_def)
  have d: "\<not> truthy (get quiet_facility ''CWPDateLastPenalty'' (JStr []))"
    by (simp add: quiet_facility_def get_def)
  have q': "quarters ascii_python (get penalised_facility ''CWPQtrsWithNC'' (JStr ''0'')) = 0"
    by (simp add: quarters_def penalised_facility_def get_def ascii_python_def decimal_def
        is_digit_def digit_value_def)
  have s': "\<not> snc_flagged ascii_python (get penalised_facility ''CWPSNCStatus'' (JStr []))"
    by (simp add: snc_flagged_def penalised_facility_def get_def)
  have r': "\<not> reports_violation ascii_python
              (get penalised_facility ''CWPComplianceStatus'' (JStr []))"
    by (simp add: reports_violation_def penalised_facility_def get_def)
  have d': "truthy (get penalised_facility ''CWPDateLastPenalty'' (JStr []))"
    by (simp add: penalised_facility_def get_def)
  show ?thesis
    using facility_without_evidence_dropped [OF q s r, of "''0211''"]
      facility_without_evidence_dropped [OF q' s' r', of "''0211''"] q s r d q' s' r' d'
    by simp
qed

text \<open>
  C5 (as amended). Every record that the recall normalizer produces has a description
  of at most 2000 characters: an assembled description longer than that is replaced by
  its first 1997 characters followed by three dots, 2000 characters in all, and a
  shorter one is kept as assembled. (The facility normalizer does not cap.)
\<close>

theorem recall_description_capped:
  assumes "recall_to_violation recall = Inr v"
  shows "\<exists>d. description v = JStr d \<and> length d \<le> 2000
           \<and> (length (assembled_description recall) > 2000 \<longrightarrow>
                d = take 1997 (assembled_description recall) @ ''...'' \<and> length d = 2000)
           \<and> (length (assembled_description recall) \<le> 2000 \<longrightarrow>
                d = assembled_description recall)"
  using recall_to_violation_fields(1) [OF assms]
  by (simp add: truncate_description_def)

theorem recall_description_capped_witness:
  "\<exists>v d. recall_to_violation long_recall = Inr v \<and> description v = JStr d
         \<and> length (assembled_description long_recall) > 2000
         \<and> d = take 1997 (assembled_description long_recall) @ ''...'' \<and> length d = 2000"
proof -
  have "get long_recall ''state'' (JStr []) \<noteq> JNull"
    by (simp add: long_recall_def sample_recall_def get_def)
  then obtain v where v: "recall_to_violation long_recall = Inr v"
    using recall_to_violation_total by blast
  have len: "length (assembled_description long_recall) > 2000"
    by (simp add: assembled_description_def recall_desc_parts_def long_recall_def
        sample_recall_def get_def part_def filter_none_def)
  show ?thesis
    using recall_description_capped [OF v] v len by auto
qed

text \<open>
  C5 as stated fails for the facility normalizer: a permit status of 2001 characters
  gives a description of more than 2000 characters.
\<close>

theorem facility_description_uncapped:
  "\<exists>v d. facility_to_violation ascii_python wordy_facility ''0211'' = Some v
         \<and> description v = JStr d \<and> length d > 2000"
  by (simp add: facility_to_violation_def Let_def wordy_facility_def penalised_facility_def
      get_def echo_desc_parts_def filter_none_def part_def)

text \<open>
  C8. The recall normalizer's severity is the lookup of the classification field:
  "Class I" gives "High", "Class II" gives "Medium", "Class III" gives "Low", every
  other value (also a missing or null classification) gives "Medium"; every record the
  normalizer produces carries that severity, so the field is never absent.
\<close>

theorem recall_severity_lookup:
  "class_severity (JStr ''Class I'') = ''High''
   \<and> class_severity (JStr ''Class II'') = ''Medium''
   \<and> class_severity (JStr ''Class III'') = ''Low''
   \<and> (c \<notin> {JStr ''Class I'', JStr ''Class II'', JStr ''Class III''} \<longrightarrow>
        class_severity c = ''Medium'')
   \<and> (recall_to_violation recall = Inr v \<longrightarrow>
        severity v = JStr (class_severity (get recall ''classification'' (JStr [])))
        \<and> severity v \<noteq> JNull)"
proof -
  have a: "class_severity (JStr ''Class I'') = ''High''"
    by (simp add: class_severity_def CLASS_SEVERITY_def)
  have b: "class_severity (JStr ''Class II'') = ''Medium''"
    by (simp add: class_severity_def CLASS_SEVERITY_def)
  have c: "class_severity (JStr ''Class III'') = ''Low''"
    by (simp add: class_severity_def CLASS_SEVERITY_def)
  have d: "c \<notin> {JStr ''Class I'', JStr ''Class II'', JStr ''Class III''} \<longrightarrow>
        class_severity c = ''Medium''"
    using class_severity_default by blast
  have e: "recall_to_violation recall = Inr v \<longrightarrow>
        severity v = JStr (class_severity (get recall ''classification'' (JStr [])))
        \<and> severity v \<noteq> JNull"
    by (simp add: recall_to_violation_fields(2))
  from a b c d e show ?thesis by blast
qed

theorem recall_severity_lookup_witness:
  "\<exists>v. recall_to_violation sample_recall = Inr v \<and> severity v = JStr ''High''
       \<and> JStr ''Class IV'' \<notin> {JStr ''Class I'', JStr ''Class II'', JStr ''Class III''}
       \<and> class_severity (JStr ''Class IV'') = ''Medium''"
proof -
  obtain v where v: "recall_to_violation sample_recall = Inr v"
    using sample_recall_normalized by blast
  have g: "get sample_recall ''classification'' (JStr []) = JStr ''Class I''"
    by (simp add: sample_recall_def get_def)
  have n: "JStr ''Class IV'' \<notin> {JStr ''Class I'', JStr ''Class II'', JStr ''Class III''}"
    by simp
  show ?thesis
    using recall_severity_lookup [of "JStr ''Class IV''" sample_recall v] v g n by auto
qed

section \<open>Properties of the recall fetcher\<close>

lemma requests_append [simp]: "requests (a @ b) = requests a @ requests b"
  by (induction a rule: requests.induct) simp_all

lemma normalized_append [simp]: "normalized (a @ b) = normalized a @ normalized b"
  by (induction a rule: normalized.induct) simp_all

lemma upserted_append [simp]: "upserted (a @ b) = upserted a @ upserted b"
  by (induction a rule: upserted.induct) simp_all

lemma log_simps [simp]:
  "trace (log e w) = trace w @ [e]" "calls (log e w) = calls w" "db (log e w) = db w"
  by (simp_all add: log_def)

lemma sleep_simps [simp]:
  "trace (sleep ms w) = trace w @ [Sleep ms]" "calls (sleep ms w) = calls w" "db (sleep ms w) = db w"
  by (simp_all add: sleep_def)

lemma commit_simps [simp]:
  "trace (commit c w) = trace w @ [Committed]" "calls (commit c w) = calls w" "db (commit c w) = c"
  by (simp_all add: commit_def)

lemma http_get_simps [simp]:
  "fst (http_get api req w) = api (calls w) req"
  "trace (snd (http_get api req w)) = trace w @ [Http req]"
  "calls (snd (http_get api req w)) = Suc (calls w)"
  "db (snd (http_get api req w)) = db w"
  by (simp_all add: http_get_def)

lemma fetch_recalls_world:
  "snd (fetch_recalls fda q limit skip w) = snd (http_get fda (Enforcement q (min limit 100) skip) w)"
  by (simp add: fetch_recalls_def split: prod.splits outcome.splits option.splits)

lemma fetch_recalls_Some:
  "fda (calls w) (Enforcement q 100 skip) = Json (Some rs) \<Longrightarrow>
     fst (fetch_recalls fda q 100 skip w) = rs"
  by (simp add: fetch_recalls_def http_get_def)

lemma successes_append [simp]: "successes (a @ b) = successes a @ successes b"
  by (simp add: successes_def)

lemma process_recall_post:
  "fsis_inv st w \<Longrightarrow> fsis_post (process_recall st recall w)"
  by (auto simp: fsis_inv_def fsis_post_def process_recall_def keys_distinct_def successes_def
      split: sum.splits)

lemma process_results_post:
  "fsis_inv st w \<Longrightarrow> fsis_post (process_results st results w)"
proof (induction results arbitrary: st w)
  case Nil
  then show ?case by (simp add: fsis_post_def fsis_inv_def)
next
  case (Cons r rs)
  obtain res w1 where pr: "process_recall st r w = (res, w1)" by force
  have post: "fsis_post (res, w1)"
    using process_recall_post [OF Cons.prems, of r] pr by simp
  show ?case
  proof (cases res)
    case (Inl e)
    then show ?thesis using pr post by (simp add: fsis_post_def)
  next
    case (Inr st1)
    then have "fsis_inv st1 w1" using post by (simp add: fsis_post_def)
    from Cons.IH [OF this] show ?thesis using pr Inr by simp
  qed
qed

lemma fsis_inv_world:
  "fsis_inv st w \<Longrightarrow> normalized (trace w') = normalized (trace w) \<Longrightarrow>
     upserted (trace w') = upserted (trace w) \<Longrightarrow> fsis_inv st w'"
  by (simp add: fsis_inv_def keys_distinct_def)

lemma fetch_recalls_trace:
  "trace (snd (fetch_recalls fda q limit skip w)) = trace w @ [Http (Enforcement q (min limit 100) skip)]"
  "calls (snd (fetch_recalls fda q limit skip w)) = Suc (calls w)"
  "db (snd (fetch_recalls fda q limit skip w)) = db w"
  by (simp_all add: fetch_recalls_world)

lemma paginate_post:
  "fsis_inv st w \<Longrightarrow> fsis_post (paginate fda q m skip st w)"
proof (induction fda q m skip st w rule: paginate.induct)
  case (1 fda q m skip st w)
  show ?case
  proof (cases "skip < m")
    case False
    then show ?thesis using "1.prems" by (simp add: paginate.simps fsis_post_def fsis_inv_def)
  next
    case True
    obtain results w1 where f: "fetch_recalls fda q 100 skip w = (results, w1)" by force
    have w1: "trace w1 = trace w @ [Http (Enforcement q 100 skip)]"
      using fetch_recalls_trace(1) [of fda q 100 skip w] f by simp
    have inv1: "fsis_inv st w1"
      using "1.prems" w1 by (auto intro: fsis_inv_world)
    show ?thesis
    proof (cases "results = []")
      case True
      then show ?thesis using \<open>skip < m\<close> f inv1
        by (simp add: paginate.simps fsis_post_def fsis_inv_def)
    next
      case False
      obtain res w2 where p: "process_results st results w1 = (res, w2)" by force
      have post: "fsis_post (res, w2)" using process_results_post [OF inv1, of results] p by simp
      show ?thesis
      proof (cases res)
        case (Inl e)
        then show ?thesis using \<open>skip < m\<close> f False p post
          by (simp add: paginate.simps fsis_post_def)
      next
        case (Inr st1)
        then have inv2: "fsis_inv st1 w2" using post by (simp add: fsis_post_def)
        show ?thesis
        proof (cases "length results < 100")
          case True
          then show ?thesis using \<open>skip < m\<close> f False p Inr post
            by (simp add: paginate.simps)
        next
          case long: False
          have inv3: "fsis_inv st1 (sleep 300 w2)"
            using inv2 by (auto intro: fsis_inv_world)
          have "fsis_post (paginate fda q m (skip + length results) st1 (sleep 300 w2))"
            using "1.IH" [OF \<open>skip < m\<close> f [symmetric] False p [symmetric] _ long inv3] Inr
            by simp
          then show ?thesis using \<open>skip < m\<close> f False p Inr long
            by (simp add: paginate.simps)
        qed
      qed
    qed
  qed
qed

lemma query_loop_post:
  "fsis_inv st w \<Longrightarrow> fsis_post (query_loop fda m st qs w)"
proof (induction qs arbitrary: st w)
  case Nil
  then show ?case by (simp add: fsis_post_def fsis_inv_def)
next
  case (Cons q qs)
  obtain res w1 where p: "paginate fda q m 0 st w = (res, w1)" by force
  have post: "fsis_post (res, w1)" using paginate_post [OF Cons.prems, of fda q m 0] p by simp
  show ?case
  proof (cases res)
    case (Inl e)
    then show ?thesis using p post by (simp add: fsis_post_def)
  next
    case (Inr st1)
    then have "fsis_inv st1 w1" using post by (simp add: fsis_post_def)
    then have "fsis_inv st1 (sleep 500 (commit (conn st1) w1))"
      by (auto intro: fsis_inv_world)
    from Cons.IH [OF this] show ?thesis using p Inr by simp
  qed
qed

lemma scrape_fsis_recalls_trace:
  assumes "normalized (trace w) = []" and "upserted (trace w) = []"
  shows "keys_distinct (snd (scrape_fsis_recalls fda m w))"
    and "upserted (trace (snd (scrape_fsis_recalls fda m w)))
         = successes (normalized (trace (snd (scrape_fsis_recalls fda m w))))"
proof -
  let ?st = "\<lparr>total_inserted = 0, seen_ids = {}, conn = init_db (get_connection w)\<rparr>"
  have "fsis_inv ?st w" using assms by (simp add: fsis_inv_def keys_distinct_def successes_def)
  then have "fsis_post (query_loop fda m ?st SEARCH_QUERIES w)" by (rule query_loop_post)
  then show "keys_distinct (snd (scrape_fsis_recalls fda m w))"
    and "upserted (trace (snd (scrape_fsis_recalls fda m w)))
         = successes (normalized (trace (snd (scrape_fsis_recalls fda m w))))"
    by (auto simp: scrape_fsis_recalls_def fsis_post_def split: prod.splits sum.splits)
qed

lemma distinct_filter_le_one:
  "distinct (map f xs) \<Longrightarrow> \<forall>x \<in> set xs. P x \<longrightarrow> f x = k \<Longrightarrow> length (filter P xs) \<le> 1"
proof (induction xs)
  case Nil
  then show ?case by simp
next
  case (Cons x xs)
  show ?case
  proof (cases "P x")
    case False
    with Cons show ?thesis by simp
  next
    case True
    then have "f x = k" using Cons.prems by simp
    moreover have "f x \<notin> f ` set xs" using Cons.prems(1) by simp
    ultimately have "\<forall>y \<in> set xs. \<not> P y"
      using Cons.prems(2) by (metis image_eqI list.set_intros(2))
    then have "filter P xs = []" by (simp add: filter_empty_conv)
    with True show ?thesis by simp
  qed
qed

lemma recall_num_missing: "recall ''recall_number'' = None \<Longrightarrow> recall_num recall = JStr []"
  by (simp add: recall_num_def get_def)

lemma process_recall_requests:
  "requests (trace (snd (process_recall st r w))) = requests (trace w)
   \<and> calls (snd (process_recall st r w)) = calls w"
  by (simp add: process_recall_def split: sum.splits)

lemma process_results_requests:
  "requests (trace (snd (process_results st rs w))) = requests (trace w)
   \<and> calls (snd (process_results st rs w)) = calls w"
proof (induction rs arbitrary: st w)
  case Nil
  then show ?case by simp
next
  case (Cons r rs)
  obtain res w1 where pr: "process_recall st r w = (res, w1)" by force
  have one: "requests (trace w1) = requests (trace w) \<and> calls w1 = calls w"
    using process_recall_requests [of st r w] pr by simp
  show ?case
  proof (cases res)
    case (Inl e)
    then show ?thesis using pr one by simp
  next
    case (Inr st1)
    then show ?thesis using pr one Cons.IH [of st1 w1] by simp
  qed
qed

lemma process_recall_returns:
  "well_formed r \<Longrightarrow> \<exists>st1. fst (process_recall st r w) = Inr st1"
  using recall_to_violation_total [of r]
  by (auto simp: process_recall_def well_formed_def)

lemma process_results_returns:
  "\<forall>r \<in> set rs. well_formed r \<Longrightarrow> \<exists>st1. fst (process_results st rs w) = Inr st1"
proof (induction rs arbitrary: st w)
  case Nil
  then show ?case by simp
next
  case (Cons r rs)
  obtain st1 where "fst (process_recall st r w) = Inr st1"
    using process_recall_returns [of r st w] Cons.prems by auto
  then obtain w1 where pr: "process_recall st r w = (Inr st1, w1)"
    by (cases "process_recall st r w") auto
  show ?case using pr Cons.IH [of st1 w1] Cons.prems by simp
qed

lemma pages_arith_aux: "(Suc d + 99) div 100 = Suc ((Suc d - 100 + 99) div 100)"
proof (cases "d < 100")
  case True
  then show ?thesis by simp
next
  case False
  then obtain e where "d = 100 + e" by (metis le_Suc_ex not_less)
  then show ?thesis by simp
qed

lemma pages_arith:
  assumes "skip < (m::nat)"
  shows "(m - skip + 99) div 100 = Suc ((m - (skip + 100) + 99) div 100)"
proof -
  obtain d where d: "m = skip + Suc d" using assms less_iff_Suc_add by auto
  have "m - skip = Suc d" "m - (skip + 100) = Suc d - 100" by (simp_all add: d)
  then show ?thesis by (simp only: pages_arith_aux)
qed

lemma upt_0_Suc: "[0 ..< Suc n] = 0 # map Suc [0 ..< n]"
  by (simp only: upt_conv_Cons [OF zero_less_Suc] map_Suc_upt)

lemma pages_step:
  assumes "skip < (m::nat)"
  shows "[0 ..< (m - skip + 99) div 100] = 0 # map Suc [0 ..< (m - (skip + 100) + 99) div 100]"
  by (simp only: pages_arith [OF assms] upt_0_Suc)

lemma paginate_full_pages:
  "full_pages fda q \<Longrightarrow>
     \<exists>st1 w1. paginate fda q m skip st w = (Inr st1, w1)
           \<and> requests (trace w1) = requests (trace w)
                @ map (\<lambda>k. Enforcement q 100 (skip + 100 * k)) [0 ..< (m - skip + 99) div 100]"
proof (induction fda q m skip st w rule: paginate.induct)
  case (1 fda q m skip st w)
  show ?case
  proof (cases "skip < m")
    case False
    then show ?thesis by (simp add: paginate.simps)
  next
    case True
    from "1.prems" obtain rs where rs: "fda (calls w) (Enforcement q 100 skip) = Json (Some rs)"
      and len: "length rs = 100" and wf: "\<forall>r \<in> set rs. well_formed r"
      unfolding full_pages_def by blast
    obtain w1 where f: "fetch_recalls fda q 100 skip w = (rs, w1)"
      using fetch_recalls_Some [of fda w q skip rs] rs
      by (cases "fetch_recalls fda q 100 skip w") auto
    have w1: "requests (trace w1) = requests (trace w) @ [Enforcement q 100 skip]"
      using fetch_recalls_trace(1) [of fda q 100 skip w] f by simp
    have ne: "rs \<noteq> []" using len by auto
    obtain st1 where "fst (process_results st rs w1) = Inr st1"
      using process_results_returns [OF wf] by blast
    then obtain w2 where p: "process_results st rs w1 = (Inr st1, w2)"
      by (cases "process_results st rs w1") auto
    have w2: "requests (trace w2) = requests (trace w1)"
      using process_results_requests [of st rs w1] p by simp
    have long: "\<not> length rs < 100" using len by simp
    from "1.IH" [OF True f [symmetric] ne p [symmetric] _ long "1.prems"]
    obtain st2 w3 where
      rec: "paginate fda q m (skip + length rs) st1 (sleep 300 w2) = (Inr st2, w3)"
      and tr: "requests (trace w3) = requests (trace (sleep 300 w2))
                @ map (\<lambda>k. Enforcement q 100 (skip + length rs + 100 * k))
                    [0 ..< (m - (skip + length rs) + 99) div 100]"
      by auto
    have "paginate fda q m skip st w = (Inr st2, w3)"
      using True f ne p long rec by (simp add: paginate.simps [of fda q m skip st w])
    moreover have "requests (trace w3) = requests (trace w)
                @ map (\<lambda>k. Enforcement q 100 (skip + 100 * k)) [0 ..< (m - skip + 99) div 100]"
      using tr w1 w2 len by (simp add: pages_step [OF True] comp_def)
    ultimately show ?thesis by blast
  qed
qed

lemma paginate_short_page:
  assumes "skip < m" and "length (fst (fetch_recalls fda q 100 skip w)) < 100"
  shows "requests (trace (snd (paginate fda q m skip st w)))
           = requests (trace w) @ [Enforcement q 100 skip]"
proof -
  obtain rs w1 where f: "fetch_recalls fda q 100 skip w = (rs, w1)" by force
  have w1: "requests (trace w1) = requests (trace w) @ [Enforcement q 100 skip]"
    using fetch_recalls_trace(1) [of fda q 100 skip w] f by simp
  have short: "length rs < 100" using assms(2) f by simp
  show ?thesis
  proof (cases "rs = []")
    case True
    then show ?thesis using assms(1) f w1 by (simp add: paginate.simps [of fda q m skip st w])
  next
    case False
    obtain res w2 where p: "process_results st rs w1 = (res, w2)" by force
    have w2: "requests (trace w2) = requests (trace w1)"
      using process_results_requests [of st rs w1] p by simp
    show ?thesis using assms(1) f False p short w1 w2
      by (cases res) (simp_all add: paginate.simps [of fda q m skip st w])
  qed
qed

lemma process_recall_raises:
  assumes "recall_num r \<notin> seen_ids st" and "recall_to_violation r = Inl e"
  shows "process_recall st r w = (Inl e, log (Normalized r) w)"
  using assms by (simp add: process_recall_def)

text \<open>
  On payloads that the normalizer accepts the pagination is as intended: for a search
  query whose every page request returns exactly 100 such results, with a cap of 250 the
  pagination of that query returns normally after exactly three page requests, at
  offsets 0, 100 and 200. For any query and cap, a page of fewer than 100 results (an
  empty or failed page too) is the last page requested.
\<close>

lemma pagination_stops_at_cap:
  "(full_pages fda q \<longrightarrow>
      (\<exists>st1 w1. paginate fda q 250 0 st w = (Inr st1, w1)
         \<and> requests (trace w1) = requests (trace w)
              @ [Enforcement q 100 0, Enforcement q 100 100, Enforcement q 100 200]))
   \<and> (skip < m \<and> length (fst (fetch_recalls fda q 100 skip w)) < 100 \<longrightarrow>
        requests (trace (snd (paginate fda q m skip st w)))
          = requests (trace w) @ [Enforcement q 100 skip])"
proof -
  have three: "[0 ..< (250 - 0 + 99) div 100] = [0, 1, 2::nat]"
    by (simp add: upt_rec)
  have a: "full_pages fda q \<longrightarrow>
      (\<exists>st1 w1. paginate fda q 250 0 st w = (Inr st1, w1)
         \<and> requests (trace w1) = requests (trace w)
              @ [Enforcement q 100 0, Enforcement q 100 100, Enforcement q 100 200])"
  proof
    assume "full_pages fda q"
    from paginate_full_pages [OF this, of 250 0 st w] three
    show "\<exists>st1 w1. paginate fda q 250 0 st w = (Inr st1, w1)
         \<and> requests (trace w1) = requests (trace w)
              @ [Enforcement q 100 0, Enforcement q 100 100, Enforcement q 100 200]"
      by simp
  qed
  have b: "skip < m \<and> length (fst (fetch_recalls fda q 100 skip w)) < 100 \<longrightarrow>
        requests (trace (snd (paginate fda q m skip st w)))
          = requests (trace w) @ [Enforcement q 100 skip]"
    using paginate_short_page by blast
  from a b show ?thesis by blast
qed

lemma full_pages_full_fda: "full_pages full_fda q"
proof -
  have "well_formed sample_recall"
    by (simp add: well_formed_def sample_recall_def get_def)
  then show ?thesis
    by (auto simp: full_pages_def full_fda_def)
qed

lemma pagination_stops_at_cap_example:
  "full_pages full_fda ''beef''
   \<and> (\<exists>st1 w1. paginate full_fda ''beef'' 250 0 empty_state fresh_world = (Inr st1, w1)
         \<and> requests (trace w1)
            = [Enforcement ''beef'' 100 0, Enforcement ''beef'' 100 100, Enforcement ''beef'' 100 200])
   \<and> (0::nat) < 250
   \<and> length (fst (fetch_recalls short_fda ''beef'' 100 0 fresh_world)) < 100
   \<and> requests (trace (snd (paginate short_fda ''beef'' 250 0 empty_state fresh_world)))
        = [Enforcement ''beef'' 100 0]"
proof -
  have f: "full_pages full_fda ''beef''" by (rule full_pages_full_fda)
  have s: "length (fst (fetch_recalls short_fda ''beef'' 100 0 fresh_world)) < 100"
    by (simp add: fetch_recalls_def http_get_def short_fda_def)
  have t: "requests (trace fresh_world) = []" by (simp add: fresh_world_def)
  show ?thesis
    using pagination_stops_at_cap [of full_fda "''beef''" empty_state fresh_world 0 250]
      pagination_stops_at_cap [of short_fda "''beef''" empty_state fresh_world 0 250] f s t
    by simp
qed

text \<open>
  C7. The claim fails on the fetcher when a returned payload has a null \<open>state\<close>.
  The normalizer takes \<open>len(state)\<close> without the test for an empty value that guards
  \<open>len(init_date)\<close> a few lines earlier, and the fetcher calls the normalizer outside
  its \<open>try\<close>. So with a service whose every page request returns exactly 100 results,
  each with a null \<open>state\<close>, and a cap of 250, the normalizer raises \<open>TypeError\<close> on
  the first payload of the first page, the exception leaves the fetcher, and only the
  request at offset 0 has been issued, not the three requests at offsets 0, 100 and 200.
\<close>

theorem pagination_aborted_by_null_state:
  "pages_of_100 null_state_fda ''beef''
   \<and> fst (paginate null_state_fda ''beef'' 250 0 empty_state fresh_world) = Inl TypeError
   \<and> requests (trace (snd (paginate null_state_fda ''beef'' 250 0 empty_state fresh_world)))
        = [Enforcement ''beef'' 100 0]"
proof -
  have p: "pages_of_100 null_state_fda ''beef''"
    by (simp add: pages_of_100_def null_state_fda_def)
  have r: "recall_to_violation null_state_recall = Inl TypeError"
    by (rule recall_to_violation_raises) (simp add: null_state_recall_def get_def)
  have n: "recall_num null_state_recall \<notin> seen_ids empty_state"
    by (simp add: empty_state_def)
  have hundred: "replicate 100 null_state_recall = null_state_recall # replicate 99 null_state_recall"
    by (simp add: replicate_Suc [symmetric] del: replicate_Suc)
  have f: "fetch_recalls null_state_fda ''beef'' 100 0 fresh_world
             = (null_state_recall # replicate 99 null_state_recall,
                log (Http (Enforcement ''beef'' 100 0)) (fresh_world\<lparr>calls := Suc 0\<rparr>))"
    by (simp add: fetch_recalls_def http_get_def null_state_fda_def hundred fresh_world_def)
  have "paginate null_state_fda ''beef'' 250 0 empty_state fresh_world
          = (Inl TypeError, log (Normalized null_state_recall)
               (log (Http (Enforcement ''beef'' 100 0)) (fresh_world\<lparr>calls := Suc 0\<rparr>)))"
    by (simp add: paginate.simps [of null_state_fda "''beef''" 250 0] f
        process_recall_raises [OF n r])
  with p show ?thesis by (simp add: fresh_world_def)
qed

text \<open>
  C10. In the recall fetcher a payload whose \<open>recall_number\<close> is already in the run's
  seen-set is skipped: state and world are left as they were, so it is neither
  normalized nor stored nor counted. A payload without \<open>recall_number\<close> has the empty
  string as its key, and the key of every payload that is processed is in the seen-set
  afterwards and stays there. Hence, in every run, the payloads handed to the
  normalizer have pairwise distinct keys, at most one of them lacks a
  \<open>recall_number\<close>, and the upserted records are exactly the normalizer's results for
  them.
\<close>

theorem one_recall_without_number_per_run:
  "(recall_num recall \<in> seen_ids st \<longrightarrow> process_recall st recall w = (Inr st, w))
   \<and> (recall ''recall_number'' = None \<longrightarrow> recall_num recall = JStr [])
   \<and> (process_recall st recall w = (Inr st1, w1) \<longrightarrow>
        recall_num recall \<in> seen_ids st1 \<and> seen_ids st \<subseteq> seen_ids st1)
   \<and> (let w2 = snd (scrape_fsis_recalls fda max_per_query (w\<lparr>trace := []\<rparr>))
      in distinct (map recall_num (normalized (trace w2)))
         \<and> length (filter (\<lambda>r. r ''recall_number'' = None) (normalized (trace w2))) \<le> 1
         \<and> upserted (trace w2) = successes (normalized (trace w2)))"
proof -
  have a: "recall_num recall \<in> seen_ids st \<longrightarrow> process_recall st recall w = (Inr st, w)"
    by (simp add: process_recall_def)
  have b: "recall ''recall_number'' = None \<longrightarrow> recall_num recall = JStr []"
    by (simp add: recall_num_missing)
  have c: "process_recall st recall w = (Inr st1, w1) \<longrightarrow>
        recall_num recall \<in> seen_ids st1 \<and> seen_ids st \<subseteq> seen_ids st1"
    by (auto simp: process_recall_def split: if_splits sum.splits)
  let ?w2 = "snd (scrape_fsis_recalls fda max_per_query (w\<lparr>trace := []\<rparr>))"
  have d: "distinct (map recall_num (normalized (trace ?w2)))"
    using scrape_fsis_recalls_trace(1) [of "w\<lparr>trace := []\<rparr>" fda max_per_query]
    by (simp add: keys_distinct_def)
  have e: "upserted (trace ?w2) = successes (normalized (trace ?w2))"
    using scrape_fsis_recalls_trace(2) [of "w\<lparr>trace := []\<rparr>" fda max_per_query] by simp
  have f: "length (filter (\<lambda>r. r ''recall_number'' = None) (normalized (trace ?w2))) \<le> 1"
    by (rule distinct_filter_le_one [OF d, where k = "JStr []"]) (simp add: recall_num_missing)
  from a b c d e f show ?thesis by (simp add: Let_def)
qed

theorem one_recall_without_number_per_run_witness:
  "recall_num anonymous_recall \<in> seen_ids seen_state
   \<and> anonymous_recall ''recall_number'' = None
   \<and> recall_num anonymous_recall = JStr []
   \<and> process_recall seen_state anonymous_recall fresh_world = (Inr seen_state, fresh_world)
   \<and> length (filter (\<lambda>r. r ''recall_number'' = None)
        (normalized (trace (snd (scrape_fsis_recalls anonymous_fda 100 fresh_world))))) \<le> 1"
proof -
  have k: "recall_num anonymous_recall \<in> seen_ids seen_state"
    by (simp add: recall_num_def get_def anonymous_recall_def seen_state_def)
  have m: "anonymous_recall ''recall_number'' = None"
    by (simp add: anonymous_recall_def)
  have t: "fresh_world\<lparr>trace := []\<rparr> = fresh_world"
    by (simp add: fresh_world_def)
  show ?thesis
    using one_recall_without_number_per_run
      [of anonymous_recall seen_state fresh_world seen_state fresh_world anonymous_fda 100] k m t
    by (simp add: Let_def)
qed

section \<open>Properties of the facility fetcher and the orchestrator\<close>

lemma http_get_obtain:
  obtains w1 where "http_get api req w = (api (calls w) req, w1)"
    and "trace w1 = trace w @ [Http req]" and "calls w1 = Suc (calls w)" and "db w1 = db w"
proof
  show "http_get api req w = (api (calls w) req, log (Http req) (w\<lparr>calls := Suc (calls w)\<rparr>))"
    by (simp add: http_get_def)
  show "trace (log (Http req) (w\<lparr>calls := Suc (calls w)\<rparr>)) = trace w @ [Http req]"
    and "calls (log (Http req) (w\<lparr>calls := Suc (calls w)\<rparr>)) = Suc (calls w)"
    and "db (log (Http req) (w\<lparr>calls := Suc (calls w)\<rparr>)) = db w"
    by simp_all
qed

lemma poll_always_working:
  assumes "\<forall>i. \<exists>env. echo i (GetFacilities sic) = Json env \<and> working env \<and> Q env"
  shows "n + k = 12 \<Longrightarrow> working results \<Longrightarrow> Q results \<Longrightarrow>
     \<exists>res w1. poll echo sic results n w = (res, 12, w1) \<and> working res \<and> Q res
        \<and> trace w1 = trace w @ polls sic k \<and> calls w1 = calls w + k \<and> db w1 = db w"
proof (induction k arbitrary: n results w)
  case 0
  then have "n = 12" by simp
  then show ?case using "0.prems"(2,3)
    by (simp add: poll.simps [of echo sic results 12 w] polls_def)
next
  case (Suc k)
  obtain w1 where h: "http_get echo (GetFacilities sic) (sleep 5000 w)
                        = (echo (calls (sleep 5000 w)) (GetFacilities sic), w1)"
    and t1: "trace w1 = trace (sleep 5000 w) @ [Http (GetFacilities sic)]"
    and c1: "calls w1 = Suc (calls (sleep 5000 w))" and d1: "db w1 = db (sleep 5000 w)"
    by (rule http_get_obtain)
  from assms obtain env where env: "echo (calls (sleep 5000 w)) (GetFacilities sic) = Json env"
    and wenv: "working env" and qenv: "Q env" by blast
  have n: "n < 12" "Suc n + k = 12" using Suc.prems(1) by simp_all
  from Suc.IH [OF n(2) wenv qenv, of w1] obtain res w2 where
    r: "poll echo sic env (Suc n) w1 = (res, 12, w2)" and ok: "working res" "Q res"
    and tr: "trace w2 = trace w1 @ polls sic k" "calls w2 = calls w1 + k" "db w2 = db w1" by blast
  have "poll echo sic results n w = (res, 12, w2)"
    using Suc.prems(2) n(1) h env r by (simp add: poll.simps [of echo sic results n w])
  moreover have "trace w2 = trace w @ polls sic (Suc k)" "calls w2 = calls w + Suc k" "db w2 = db w"
    using tr t1 c1 d1 by (simp_all add: polls_def)
  ultimately show ?case using ok by blast
qed

lemma fetch_page_trace:
  "\<exists>rest. trace (snd (fetch_page echo qid page n acc w)) = trace w @ rest \<and> list_all page_event rest"
proof (induction n arbitrary: acc w)
  case 0
  then show ?case by simp
next
  case (Suc n)
  obtain w1 where h: "http_get echo (GetQid qid page) w = (echo (calls w) (GetQid qid page), w1)"
    and t1: "trace w1 = trace w @ [Http (GetQid qid page)]"
    by (rule http_get_obtain)
  show ?case
  proof (cases "echo (calls w) (GetQid qid page)")
    case Failed
    then have e: "fetch_page echo qid page (Suc n) acc w = fetch_page echo qid page n acc (sleep 3000 w1)"
      using h by simp
    from Suc.IH [of acc "sleep 3000 w1"] obtain rest where
      "trace (snd (fetch_page echo qid page n acc (sleep 3000 w1))) = trace (sleep 3000 w1) @ rest"
      "list_all page_event rest" by blast
    then show ?thesis using e t1
      by (intro exI [of _ "[Http (GetQid qid page), Sleep 3000] @ rest"]) simp
  next
    case (Json pr)
    show ?thesis
    proof (cases "working pr")
      case True
      then have e: "fetch_page echo qid page (Suc n) acc w = fetch_page echo qid page n acc (sleep 5000 w1)"
        using h Json by simp
      from Suc.IH [of acc "sleep 5000 w1"] obtain rest where
        "trace (snd (fetch_page echo qid page n acc (sleep 5000 w1))) = trace (sleep 5000 w1) @ rest"
        "list_all page_event rest" by blast
      then show ?thesis using e t1
        by (intro exI [of _ "[Http (GetQid qid page), Sleep 5000] @ rest"]) simp
    next
      case False
      then have "snd (fetch_page echo qid page (Suc n) acc w) = w1"
        using h Json by (simp split: option.splits)
      then show ?thesis using t1
        by (intro exI [of _ "[Http (GetQid qid page)]"]) simp
    qed
  qed
qed

lemma fetch_pages_trace:
  "\<exists>rest. trace (snd (fetch_pages echo qid pages acc w)) = trace w @ rest \<and> list_all page_event rest"
proof (induction pages arbitrary: acc w)
  case Nil
  then show ?case by simp
next
  case (Cons page pages)
  obtain acc1 w1 where f: "fetch_page echo qid page 6 acc w = (acc1, w1)" by force
  from fetch_page_trace [of echo qid page 6 acc w] f obtain r1 where
    r1: "trace w1 = trace w @ r1" "list_all page_event r1" by auto
  from Cons.IH [of acc1 "sleep 1000 w1"] obtain r2 where
    r2: "trace (snd (fetch_pages echo qid pages acc1 (sleep 1000 w1))) = trace (sleep 1000 w1) @ r2"
    "list_all page_event r2" by blast
  show ?case using f r1 r2
    by (intro exI [of _ "r1 @ [Sleep 1000] @ r2"]) simp
qed

lemma fetch_facilities_polls:
  assumes "always_working echo sic"
  shows "\<exists>rest. trace (snd (fetch_facilities_for_sic P echo sic mx w))
            = trace w @ Http (GetFacilities sic) # polls sic 12 @ rest
          \<and> list_all page_event rest"
proof -
  obtain w1 where h: "http_get echo (GetFacilities sic) w = (echo (calls w) (GetFacilities sic), w1)"
    and t1: "trace w1 = trace w @ [Http (GetFacilities sic)]"
    by (rule http_get_obtain)
  from assms obtain data where d: "echo (calls w) (GetFacilities sic) = Json data" and wd: "working data"
    unfolding always_working_def by blast
  have aw: "\<forall>i. \<exists>env. echo i (GetFacilities sic) = Json env \<and> working env \<and> True"
    using assms unfolding always_working_def by simp
  from poll_always_working [where Q = "\<lambda>env. True" and echo = echo and sic = sic and n = 0
      and k = 12 and results = data and w = w1, OF aw] wd obtain res w2 where
    p: "poll echo sic data 0 w1 = (res, 12, w2)" and tr: "trace w2 = trace w1 @ polls sic 12"
    by auto
  have t2: "trace w2 = trace w @ Http (GetFacilities sic) # polls sic 12"
    using tr t1 by simp
  show ?thesis
  proof (cases "query_rows P res")
    case (Inl e)
    then show ?thesis using h d p t2 by (simp add: fetch_facilities_for_sic_def)
  next
    case (Inr total_rows)
    show ?thesis
    proof (cases "total_rows = 0 \<or> \<not> truthy (query_id res)")
      case True
      then show ?thesis using h d p t2 Inr by (simp add: fetch_facilities_for_sic_def)
    next
      case False
      let ?pages = "[1 ..< nat ((min total_rows (int mx) + 99) div 100 + 1)]"
      obtain acc w3 where f: "fetch_pages echo (query_id res) ?pages [] w2 = (acc, w3)" by force
      from fetch_pages_trace [of echo "query_id res" ?pages "[]" w2] f obtain rest where
        "trace w3 = trace w2 @ rest" "list_all page_event rest" by auto
      then show ?thesis using h d p t2 Inr False f
        by (simp add: fetch_facilities_for_sic_def Let_def)
    qed
  qed
qed

lemma poll_last_response:
  assumes "always_working echo sic"
  shows "n + Suc k = 12 \<Longrightarrow> working results \<Longrightarrow>
     \<exists>res w1. poll echo sic results n w = (res, 12, w1) \<and> working res
        \<and> echo (calls w + k) (GetFacilities sic) = Json res
        \<and> trace w1 = trace w @ polls sic (Suc k)"
proof (induction k arbitrary: n results w)
  case 0
  obtain w1 where h: "http_get echo (GetFacilities sic) (sleep 5000 w)
                        = (echo (calls (sleep 5000 w)) (GetFacilities sic), w1)"
    and t1: "trace w1 = trace (sleep 5000 w) @ [Http (GetFacilities sic)]"
    by (rule http_get_obtain)
  from assms obtain env where env: "echo (calls (sleep 5000 w)) (GetFacilities sic) = Json env"
    and wenv: "working env" unfolding always_working_def by blast
  have n: "n = 11" using "0.prems"(1) by simp
  have "poll echo sic env 12 w1 = (env, 12, w1)"
    by (simp add: poll.simps [of echo sic env 12 w1])
  then have "poll echo sic results n w = (env, 12, w1)"
    using "0.prems"(2) n h env by (simp add: poll.simps [of echo sic results 11 w])
  moreover have "trace w1 = trace w @ polls sic (Suc 0)" using t1 by (simp add: polls_def)
  moreover have "echo (calls w + 0) (GetFacilities sic) = Json env" using env by simp
  ultimately show ?case using wenv by blast
next
  case (Suc k)
  obtain w1 where h: "http_get echo (GetFacilities sic) (sleep 5000 w)
                        = (echo (calls (sleep 5000 w)) (GetFacilities sic), w1)"
    and t1: "trace w1 = trace (sleep 5000 w) @ [Http (GetFacilities sic)]"
    and c1: "calls w1 = Suc (calls (sleep 5000 w))"
    by (rule http_get_obtain)
  from assms obtain env where env: "echo (calls (sleep 5000 w)) (GetFacilities sic) = Json env"
    and wenv: "working env" unfolding always_working_def by blast
  have n: "n < 12" "Suc n + Suc k = 12" using Suc.prems(1) by simp_all
  from Suc.IH [OF n(2) wenv, of w1] obtain res w2 where
    r: "poll echo sic env (Suc n) w1 = (res, 12, w2)" and ok: "working res"
    and last: "echo (calls w1 + k) (GetFacilities sic) = Json res"
    and tr: "trace w2 = trace w1 @ polls sic (Suc k)" by blast
  have "poll echo sic results n w = (res, 12, w2)"
    using Suc.prems(2) n(1) h env r by (simp add: poll.simps [of echo sic results n w])
  moreover have "trace w2 = trace w @ polls sic (Suc (Suc k))"
    using tr t1 by (simp add: polls_def)
  moreover have "echo (calls w + Suc k) (GetFacilities sic) = Json res"
    using last c1 by simp
  ultimately show ?case using ok by blast
qed

lemma fetch_facilities_after_polls:
  assumes "always_working echo sic"
  obtains res w2 where "last_poll echo sic w = Json res" and "working res"
    and "trace w2 = trace w @ Http (GetFacilities sic) # polls sic 12"
    and "fetch_facilities_for_sic P echo sic mx w =
           (case query_rows P res of
              Inl e \<Rightarrow> (Inl e, w2)
            | Inr total_rows \<Rightarrow>
                if total_rows = 0 \<or> \<not> truthy (query_id res) then (Inr [], w2)
                else (case fetch_pages echo (query_id res)
                             [1 ..< nat ((min total_rows (int mx) + 99) div 100 + 1)] [] w2 of
                        (all_facilities, w3) \<Rightarrow> (Inr (take mx all_facilities), w3)))"
proof -
  obtain w1 where h: "http_get echo (GetFacilities sic) w = (echo (calls w) (GetFacilities sic), w1)"
    and t1: "trace w1 = trace w @ [Http (GetFacilities sic)]"
    and c1: "calls w1 = Suc (calls w)"
    by (rule http_get_obtain)
  from assms obtain data where d: "echo (calls w) (GetFacilities sic) = Json data"
    and wd: "working data"
    unfolding always_working_def by blast
  have eleven: "0 + Suc 11 = (12::nat)" by simp
  from poll_last_response [OF assms eleven wd, of w1] obtain res w2 where
    p: "poll echo sic data 0 w1 = (res, 12, w2)" and wr: "working res"
    and last: "echo (calls w1 + 11) (GetFacilities sic) = Json res"
    and tr: "trace w2 = trace w1 @ polls sic (Suc 11)" by blast
  have twelve: "Suc 11 = (12::nat)" by simp
  have a: "last_poll echo sic w = Json res" using last c1 by (simp add: last_poll_def add.commute)
  have b: "trace w2 = trace w @ Http (GetFacilities sic) # polls sic 12"
    using tr t1 unfolding twelve by simp
  have c: "fetch_facilities_for_sic P echo sic mx w =
           (case query_rows P res of
              Inl e \<Rightarrow> (Inl e, w2)
            | Inr total_rows \<Rightarrow>
                if total_rows = 0 \<or> \<not> truthy (query_id res) then (Inr [], w2)
                else (case fetch_pages echo (query_id res)
                             [1 ..< nat ((min total_rows (int mx) + 99) div 100 + 1)] [] w2 of
                        (all_facilities, w3) \<Rightarrow> (Inr (take mx all_facilities), w3)))"
    using h d p by (simp add: fetch_facilities_for_sic_def Let_def split: sum.splits)
  from a wr b c show ?thesis by (rule that)
qed

lemma fetch_facilities_no_job:
  assumes "always_working echo sic" and "last_poll echo sic w = Json env" and "no_job P env"
  shows "fst (fetch_facilities_for_sic P echo sic mx w) = Inr []
         \<and> trace (snd (fetch_facilities_for_sic P echo sic mx w))
             = trace w @ Http (GetFacilities sic) # polls sic 12"
proof -
  from fetch_facilities_after_polls [OF assms(1), of w P mx] obtain res w2 where
    l: "last_poll echo sic w = Json res"
    and t: "trace w2 = trace w @ Http (GetFacilities sic) # polls sic 12"
    and f: "fetch_facilities_for_sic P echo sic mx w =
           (case query_rows P res of
              Inl e \<Rightarrow> (Inl e, w2)
            | Inr total_rows \<Rightarrow>
                if total_rows = 0 \<or> \<not> truthy (query_id res) then (Inr [], w2)
                else (case fetch_pages echo (query_id res)
                             [1 ..< nat ((min total_rows (int mx) + 99) div 100 + 1)] [] w2 of
                        (all_facilities, w3) \<Rightarrow> (Inr (take mx all_facilities), w3)))"
    by blast
  have "res = env" using l assms(2) by simp
  with assms(3) obtain total_rows where q: "query_rows P res = Inr total_rows"
    and z: "total_rows = 0 \<or> \<not> truthy (query_id res)"
    by (auto simp: no_job_def split: sum.splits)
  have "fetch_facilities_for_sic P echo sic mx w = (Inr [], w2)"
    using f q z by auto
  then show ?thesis using t by simp
qed

lemma fetch_page_first:
  "\<exists>rest. trace (snd (fetch_page echo qid page (Suc n) acc w))
             = trace w @ Http (GetQid qid page) # rest"
proof -
  obtain w1 where h: "http_get echo (GetQid qid page) w = (echo (calls w) (GetQid qid page), w1)"
    and t1: "trace w1 = trace w @ [Http (GetQid qid page)]"
    by (rule http_get_obtain)
  show ?thesis
  proof (cases "echo (calls w) (GetQid qid page)")
    case Failed
    then have e: "fetch_page echo qid page (Suc n) acc w = fetch_page echo qid page n acc (sleep 3000 w1)"
      using h by simp
    from fetch_page_trace [of echo qid page n acc "sleep 3000 w1"] obtain rest where
      "trace (snd (fetch_page echo qid page n acc (sleep 3000 w1))) = trace (sleep 3000 w1) @ rest"
      by blast
    then show ?thesis using e t1
      by (intro exI [of _ "Sleep 3000 # rest"]) simp
  next
    case (Json pr)
    show ?thesis
    proof (cases "working pr")
      case True
      then have e: "fetch_page echo qid page (Suc n) acc w = fetch_page echo qid page n acc (sleep 5000 w1)"
        using h Json by simp
      from fetch_page_trace [of echo qid page n acc "sleep 5000 w1"] obtain rest where
        "trace (snd (fetch_page echo qid page n acc (sleep 5000 w1))) = trace (sleep 5000 w1) @ rest"
        by blast
      then show ?thesis using e t1
        by (intro exI [of _ "Sleep 5000 # rest"]) simp
    next
      case False
      then have "snd (fetch_page echo qid page (Suc n) acc w) = w1"
        using h Json by (simp split: option.splits)
      then show ?thesis using t1
        by (intro exI [of _ "[]"]) simp
    qed
  qed
qed

lemma fetch_pages_first:
  "\<exists>rest. trace (snd (fetch_pages echo qid (page # pages) acc w))
             = trace w @ Http (GetQid qid page) # rest"
proof -
  obtain acc1 w1 where f: "fetch_page echo qid page 6 acc w = (acc1, w1)" by force
  have six: "(6::nat) = Suc 5" by simp
  from fetch_page_first [of echo qid page 5 acc w] f obtain r1 where
    r1: "trace w1 = trace w @ Http (GetQid qid page) # r1" unfolding six by auto
  from fetch_pages_trace [of echo qid pages acc1 "sleep 1000 w1"] obtain r2 where
    r2: "trace (snd (fetch_pages echo qid pages acc1 (sleep 1000 w1))) = trace (sleep 1000 w1) @ r2"
    by blast
  show ?thesis using f r1 r2
    by (intro exI [of _ "r1 @ [Sleep 1000] @ r2"]) simp
qed

lemma first_page_fetched:
  assumes "0 < total_rows" and "0 < mx"
  shows "\<exists>pages. [1 ..< nat ((min total_rows (int mx) + 99) div 100 + 1)] = 1 # pages"
proof -
  define m where "m = min total_rows (int mx)"
  have "1 \<le> m" using assms by (simp add: m_def)
  then have "100 \<le> m + 99" by simp
  then have "100 div 100 \<le> (m + 99) div 100" by (rule zdiv_mono1) simp
  then have "1 \<le> (m + 99) div 100" by simp
  then have "1 < nat ((m + 99) div 100 + 1)" by simp
  then show ?thesis unfolding m_def by (simp add: upt_conv_Cons)
qed

lemma fetch_facilities_has_job:
  assumes "always_working echo sic" and "last_poll echo sic w = Json env" and "has_job P env"
    and "0 < mx"
  shows "\<exists>facilities rest.
           fst (fetch_facilities_for_sic P echo sic mx w) = Inr facilities
         \<and> trace (snd (fetch_facilities_for_sic P echo sic mx w))
             = trace w @ Http (GetFacilities sic) # polls sic 12
                 @ Http (GetQid (query_id env) 1) # rest"
proof -
  from fetch_facilities_after_polls [OF assms(1), of w P mx] obtain res w2 where
    l: "last_poll echo sic w = Json res"
    and t: "trace w2 = trace w @ Http (GetFacilities sic) # polls sic 12"
    and f: "fetch_facilities_for_sic P echo sic mx w =
           (case query_rows P res of
              Inl e \<Rightarrow> (Inl e, w2)
            | Inr total_rows \<Rightarrow>
                if total_rows = 0 \<or> \<not> truthy (query_id res) then (Inr [], w2)
                else (case fetch_pages echo (query_id res)
                             [1 ..< nat ((min total_rows (int mx) + 99) div 100 + 1)] [] w2 of
                        (all_facilities, w3) \<Rightarrow> (Inr (take mx all_facilities), w3)))"
    by blast
  have re: "res = env" using l assms(2) by simp
  with assms(3) obtain total_rows where q: "query_rows P env = Inr total_rows"
    and pos: "0 < total_rows" and id: "truthy (query_id env)"
    by (auto simp: has_job_def split: sum.splits)
  from first_page_fetched [OF pos assms(4)] obtain pages where
    pg: "[1 ..< nat ((min total_rows (int mx) + 99) div 100 + 1)] = 1 # pages" by blast
  obtain all_facilities w3 where
    g: "fetch_pages echo (query_id env) (1 # pages) [] w2 = (all_facilities, w3)" by force
  from fetch_pages_first [of echo "query_id env" 1 pages "[]" w2] g obtain rest where
    r: "trace w3 = trace w2 @ Http (GetQid (query_id env) 1) # rest" by auto
  have nz: "\<not> (total_rows = 0 \<or> \<not> truthy (query_id env))" using pos id by simp
  have "fetch_facilities_for_sic P echo sic mx w = (Inr (take mx all_facilities), w3)"
    unfolding f re q sum.case if_not_P [OF nz] pg g by simp
  then show ?thesis using r t by simp
qed

text \<open>
  C6 (as amended). For a category whose initiating query reports \<open>Working\<close> on every
  attempt, the fetcher issues the initiating request and then exactly 12 polls, each a
  5 s sleep followed by the same initiating request; whatever follows is page fetching.
  If the response to the twelfth poll carries no job (its row count is missing or reads
  as zero, or reads as an integer while the job id is missing, null or empty), nothing
  follows and the category yields no facilities. If it carries a job (a row count that
  reads as a positive integer, and a non-empty job id) and the maximum is positive, the
  fetcher goes on to the pages of that job: the next request is the one for its page 1,
  and the fetcher returns a list of facilities.
\<close>

theorem poll_loop_bounded:
  "(always_working echo sic_code \<longrightarrow>
      (\<exists>rest. trace (snd (fetch_facilities_for_sic P echo sic_code max_facilities w))
                 = trace w @ Http (GetFacilities sic_code) # polls sic_code 12 @ rest
               \<and> list_all page_event rest))
   \<and> (always_working echo sic_code \<and> last_poll echo sic_code w = Json env \<and> no_job P env \<longrightarrow>
        fst (fetch_facilities_for_sic P echo sic_code max_facilities w) = Inr []
        \<and> trace (snd (fetch_facilities_for_sic P echo sic_code max_facilities w))
             = trace w @ Http (GetFacilities sic_code) # polls sic_code 12)
   \<and> (always_working echo sic_code \<and> last_poll echo sic_code w = Json env \<and> has_job P env
        \<and> 0 < max_facilities \<longrightarrow>
        (\<exists>facilities rest.
            fst (fetch_facilities_for_sic P echo sic_code max_facilities w) = Inr facilities
          \<and> trace (snd (fetch_facilities_for_sic P echo sic_code max_facilities w))
              = trace w @ Http (GetFacilities sic_code) # polls sic_code 12
                  @ Http (GetQid (query_id env) 1) # rest))"
  using fetch_facilities_polls fetch_facilities_no_job fetch_facilities_has_job by blast

lemma always_working_pending_echo: "always_working pending_echo sic_code"
  by (simp add: always_working_def pending_echo_def working_def)

lemma always_working_busy_echo: "always_working busy_echo sic_code"
  by (simp add: always_working_def busy_echo_def busy_envelope_def working_def)

theorem poll_loop_bounded_witness:
  "always_working pending_echo ''0211''
   \<and> (\<exists>env. last_poll pending_echo ''0211'' fresh_world = Json env \<and> no_job ascii_python env)
   \<and> fst (fetch_facilities_for_sic ascii_python pending_echo ''0211'' 100 fresh_world) = Inr []
   \<and> trace (snd (fetch_facilities_for_sic ascii_python pending_echo ''0211'' 100 fresh_world))
        = Http (GetFacilities ''0211'') # polls ''0211'' 12
   \<and> length (requests (Http (GetFacilities ''0211'') # polls ''0211'' 12)) = 13
   \<and> sleeps (polls ''0211'' 12) = replicate 12 5000
   \<and> always_working busy_echo ''0211''
   \<and> last_poll busy_echo ''0211'' fresh_world = Json busy_envelope
   \<and> has_job ascii_python busy_envelope \<and> (0::nat) < 100
   \<and> (\<exists>facilities rest.
          fst (fetch_facilities_for_sic ascii_python busy_echo ''0211'' 100 fresh_world)
            = Inr facilities
        \<and> trace (snd (fetch_facilities_for_sic ascii_python busy_echo ''0211'' 100 fresh_world))
            = Http (GetFacilities ''0211'') # polls ''0211'' 12
                @ Http (GetQid (JStr ''42'') 1) # rest)"
proof -
  let ?idle = "\<lparr>Message = Some (JStr ''Working''), QueryRows = None, QueryID = None,
                 Facilities = None\<rparr>"
  have t: "trace fresh_world = []" by (simp add: fresh_world_def)
  have twelve: "polls ''0211'' 12 = concat (replicate 12 [Sleep 5000, Http (GetFacilities ''0211'')])"
    by (simp add: polls_def)
  have n: "length (requests (Http (GetFacilities ''0211'') # polls ''0211'' 12)) = 13"
    "sleeps (polls ''0211'' 12) = replicate 12 5000"
    unfolding twelve by (simp_all add: numeral_eq_Suc)
  have l: "last_poll pending_echo ''0211'' fresh_world = Json ?idle"
    by (simp add: last_poll_def pending_echo_def)
  have j: "no_job ascii_python ?idle"
    by (simp add: no_job_def query_rows_def)
  have l': "last_poll busy_echo ''0211'' fresh_world = Json busy_envelope"
    by (simp add: last_poll_def busy_echo_def)
  have j': "has_job ascii_python busy_envelope"
    by (simp add: has_job_def query_rows_def query_id_def busy_envelope_def ascii_python_def
        decimal_def is_digit_def digit_value_def)
  have q: "query_id busy_envelope = JStr ''42''"
    by (simp add: query_id_def busy_envelope_def)
  show ?thesis
    using poll_loop_bounded [of pending_echo "''0211''" ascii_python 100 fresh_world ?idle]
      poll_loop_bounded [of busy_echo "''0211''" ascii_python 100 fresh_world busy_envelope]
      always_working_pending_echo [of "''0211''"] always_working_busy_echo [of "''0211''"]
      l j l' j' q t n
    by simp
qed

text \<open>
  C6 as stated fails when the \<open>Working\<close> response carries a job id and a row count:
  after the twelfth poll the code does not ask whether polling was exhausted, reads the
  job id of the last response and fetches its pages, so the category yields facilities.
\<close>

theorem working_envelope_with_job_is_fetched:
  "always_working busy_echo ''0211''
   \<and> fst (fetch_facilities_for_sic ascii_python busy_echo ''0211'' 100 fresh_world)
        = Inr [penalised_facility]"
proof -
  have aw: "always_working busy_echo ''0211''"
    by (simp add: always_working_def busy_echo_def busy_envelope_def working_def)
  obtain w1 where h: "http_get busy_echo (GetFacilities ''0211'') fresh_world
                        = (busy_echo (calls fresh_world) (GetFacilities ''0211''), w1)"
    by (rule http_get_obtain)
  have d: "busy_echo (calls fresh_world) (GetFacilities ''0211'') = Json busy_envelope"
    by (simp add: busy_echo_def)
  have q: "\<forall>i. \<exists>env. busy_echo i (GetFacilities ''0211'') = Json env \<and> working env
              \<and> env = busy_envelope"
    by (simp add: busy_echo_def busy_envelope_def working_def)
  have wb: "working busy_envelope" by (simp add: busy_envelope_def working_def)
  from poll_always_working [where Q = "\<lambda>env. env = busy_envelope" and echo = busy_echo
      and sic = "''0211''" and n = 0 and k = 12 and results = busy_envelope and w = w1, OF q] wb
  obtain w2 where p: "poll busy_echo ''0211'' busy_envelope 0 w1 = (busy_envelope, 12, w2)"
    by auto
  have rows: "query_rows ascii_python busy_envelope = Inr 1"
    by (simp add: query_rows_def busy_envelope_def ascii_python_def decimal_def is_digit_def
        digit_value_def)
  have qid: "query_id busy_envelope = JStr ''42''"
    by (simp add: query_id_def busy_envelope_def)
  have pages: "[1 ..< nat ((min 1 (int 100) + 99) div 100 + 1)] = [1]"
    by (simp add: upt_rec)
  obtain w3 where g: "http_get busy_echo (GetQid (JStr ''42'') 1) w2
                        = (busy_echo (calls w2) (GetQid (JStr ''42'') 1), w3)"
    by (rule http_get_obtain)
  have page: "fetch_page busy_echo (JStr ''42'') 1 6 [] w2 = ([penalised_facility], w3)"
    using g by (simp add: numeral_eq_Suc busy_echo_def working_def)
  have "fst (fetch_facilities_for_sic ascii_python busy_echo ''0211'' 100 fresh_world)
          = Inr [penalised_facility]"
    using h d p rows qid pages page
    by (simp add: fetch_facilities_for_sic_def Let_def)
  with aw show ?thesis by simp
qed


text \<open>
  When the signal does not arrive while \<open>main\<close> is handling an exception of the
  facility step, \<open>main\<close> returns: its total is the seed loader's count plus the count
  of each fetcher that returned, less the facility step's count if the signal arrived
  before it was added. A fetcher that raised adds nothing, and the next step runs on
  the world the failed step left.
\<close>

lemma main_total:
  assumes "alarm = Inside k \<or> alarm = Not_delivered \<or> alarm = Back_in_main True"
    and "alarm = Back_in_main True \<longrightarrow>
           (\<exists>count. fst (epa_step (inside alarm) (snd (fsis_step (snd (seed_step w))))) = Inr count)"
  shows "fst (main seed_step fsis_step epa_step alarm w)
     = Inr (fst (seed_step w) + contribution (fst (fsis_step (snd (seed_step w))))
            + contribution (fst (epa_step (inside alarm) (snd (fsis_step (snd (seed_step w)))))))"
  using assms
  by (auto simp: main_def contribution_def Let_def split: prod.splits sum.splits)

lemma main_returns:
  assumes "(\<forall>counted. alarm \<noteq> Back_in_main counted)
           \<or> (\<exists>count. fst (epa_step (inside alarm) (snd (fsis_step (snd (seed_step w))))) = Inr count)"
  shows "\<exists>total. fst (main seed_step fsis_step epa_step alarm w) = Inr total
           \<and> fst (seed_step w) \<le> total"
  using assms
  by (auto simp: main_def Let_def split: prod.splits sum.splits alarm.splits)

lemma main_escapes:
  assumes "fst (epa_step None (snd (fsis_step (snd (seed_step w))))) = Inl e"
  shows "fst (main seed_step fsis_step epa_step (Back_in_main counted) w) = Inl ScraperTimeout"
  using assms
  by (auto simp: main_def Let_def split: prod.splits sum.splits)

lemma paginate_null_state:
  assumes "recall_num null_state_recall \<notin> seen_ids st" and "0 < m"
  shows "fst (paginate null_state_fda q m 0 st w) = Inl TypeError"
proof -
  have r: "recall_to_violation null_state_recall = Inl TypeError"
    by (rule recall_to_violation_raises) (simp add: null_state_recall_def get_def)
  have hundred: "replicate 100 null_state_recall = null_state_recall # replicate 99 null_state_recall"
    by (simp add: replicate_Suc [symmetric] del: replicate_Suc)
  obtain w1 where g: "http_get null_state_fda (Enforcement q 100 0) w
                        = (null_state_fda (calls w) (Enforcement q 100 0), w1)"
    by (rule http_get_obtain)
  have f: "fetch_recalls null_state_fda q 100 0 w
             = (null_state_recall # replicate 99 null_state_recall, w1)"
    using g by (simp add: fetch_recalls_def null_state_fda_def hundred)
  show ?thesis
    using assms(2)
    by (simp add: paginate.simps [of null_state_fda q m 0 st w] f
        process_recall_raises [OF assms(1) r])
qed

lemma scrape_fsis_null_state:
  "fst (scrape_fsis_recalls null_state_fda 100 w) = Inl TypeError"
proof -
  let ?st = "\<lparr>total_inserted = 0, seen_ids = {}, conn = init_db (get_connection w)\<rparr>"
  obtain q qs where qs: "SEARCH_QUERIES = q # qs" by (simp add: SEARCH_QUERIES_def)
  have "fst (paginate null_state_fda q 100 0 ?st w) = Inl TypeError"
    by (rule paginate_null_state) simp_all
  then obtain w1 where "paginate null_state_fda q 100 0 ?st w = (Inl TypeError, w1)"
    by (cases "paginate null_state_fda q 100 0 ?st w") auto
  then show ?thesis
    by (simp add: scrape_fsis_recalls_def qs)
qed

text \<open>
  A recall fetcher that raises and a facility fetcher that the alarm stops do not keep
  \<open>main\<close> from reporting the seed loader's count.
\<close>

lemma main_isolates_failures:
  "fst (scrape_fsis_recalls null_state_fda 100 (snd (seed_database [keyed_record] fresh_world)))
     = Inl TypeError
   \<and> fst (main (seed_database [keyed_record]) (scrape_fsis_recalls null_state_fda 100)
            (\<lambda>signal w. (Inl ScraperTimeout, w)) (Inside 0) fresh_world) = Inr 1"
  using main_total
    [of "Inside 0" 0 "\<lambda>signal w. (Inl ScraperTimeout, w)"
        "scrape_fsis_recalls null_state_fda 100" "seed_database [keyed_record]" fresh_world]
    scrape_fsis_null_state [of "snd (seed_database [keyed_record] fresh_world)"]
  by (simp add: contribution_def seed_database_def)

lemma always_working_stalled_echo: "always_working stalled_echo sic_code"
  by (simp add: always_working_def stalled_echo_def stalled_envelope_def working_def)

lemma scrape_epa_echo_stalled:
  "fst (scrape_epa_echo P stalled_echo mx w) = Inl TypeError"
proof -
  let ?st = "(0::nat, init_db (get_connection w))"
  obtain sic codes where codes: "CAFO_SIC_CODES = sic # codes" by (simp add: CAFO_SIC_CODES_def)
  from fetch_facilities_after_polls [OF always_working_stalled_echo, of sic w P mx]
  obtain res w2 where l: "last_poll stalled_echo sic w = Json res"
    and f: "fetch_facilities_for_sic P stalled_echo sic mx w =
           (case query_rows P res of
              Inl e \<Rightarrow> (Inl e, w2)
            | Inr total_rows \<Rightarrow>
                if total_rows = 0 \<or> \<not> truthy (query_id res) then (Inr [], w2)
                else (case fetch_pages stalled_echo (query_id res)
                             [1 ..< nat ((min total_rows (int mx) + 99) div 100 + 1)] [] w2 of
                        (all_facilities, w3) \<Rightarrow> (Inr (take mx all_facilities), w3)))"
    by blast
  have "res = stalled_envelope" using l by (simp add: last_poll_def stalled_echo_def)
  then have "query_rows P res = Inl TypeError"
    by (simp add: query_rows_def stalled_envelope_def)
  then have "fetch_facilities_for_sic P stalled_echo sic mx w = (Inl TypeError, w2)"
    using f by simp
  then show ?thesis by (simp add: scrape_epa_echo_def codes)
qed

text \<open>
  C9. The claim fails on \<open>main\<close>. Take a run in which the registry answers every
  initiating query with \<open>Working\<close> and a null row count, and in which the alarm goes
  off just after the twelfth poll. The facility fetcher raises \<open>TypeError\<close> when it
  reads the row count, \<open>main\<close> enters its \<open>except Exception\<close> handler with the alarm
  still armed, the signal arrives there, and the \<open>ScraperTimeout\<close> leaves \<open>main\<close>:
  the run does not complete and reports no total. Had the signal not arrived before
  the alarm was cancelled, the same run would have reported a total of at least the seed
  loader's count.
\<close>

theorem alarm_in_handler_escapes_main:
  "fst (scrape_epa_echo ascii_python stalled_echo 100
          (snd (scrape_fsis_recalls short_fda 100 (snd (seed_database [keyed_record] fresh_world)))))
     = Inl TypeError
   \<and> fst (main (seed_database [keyed_record]) (scrape_fsis_recalls short_fda 100)
            (\<lambda>signal. scrape_epa_echo ascii_python stalled_echo 100)
            (Back_in_main False) fresh_world)
       = Inl ScraperTimeout
   \<and> (\<exists>total. fst (main (seed_database [keyed_record]) (scrape_fsis_recalls short_fda 100)
                     (\<lambda>signal. scrape_epa_echo ascii_python stalled_echo 100)
                     Not_delivered fresh_world) = Inr total
              \<and> fst (seed_database [keyed_record] fresh_world) = 1 \<and> 1 \<le> total)"
proof -
  let ?w2 = "snd (scrape_fsis_recalls short_fda 100 (snd (seed_database [keyed_record] fresh_world)))"
  have a: "fst (scrape_epa_echo ascii_python stalled_echo 100 ?w2) = Inl TypeError"
    by (rule scrape_epa_echo_stalled)
  have b: "fst (main (seed_database [keyed_record]) (scrape_fsis_recalls short_fda 100)
            (\<lambda>signal. scrape_epa_echo ascii_python stalled_echo 100)
            (Back_in_main False) fresh_world) = Inl ScraperTimeout"
    by (rule main_escapes [where e = TypeError]) (rule a)
  have s: "fst (seed_database [keyed_record] fresh_world) = 1"
    by (simp add: seed_database_def)
  from main_returns [of Not_delivered "\<lambda>signal. scrape_epa_echo ascii_python stalled_echo 100"
      "scrape_fsis_recalls short_fda 100" "seed_database [keyed_record]" fresh_world]
  obtain total where
    "fst (main (seed_database [keyed_record]) (scrape_fsis_recalls short_fda 100)
            (\<lambda>signal. scrape_epa_echo ascii_python stalled_echo 100)
            Not_delivered fresh_world) = Inr total"
    "fst (seed_database [keyed_record] fresh_world) \<le> total"
    by auto
  with a b s show ?thesis by auto
qed

section \<open>Repeated runs\<close>


lemma log_db [simp]: "log e (w\<lparr>db := d\<rparr>) = (log e w)\<lparr>db := d\<rparr>"
  by (simp add: log_def)

lemma sleep_db [simp]: "sleep ms (w\<lparr>db := d\<rparr>) = (sleep ms w)\<lparr>db := d\<rparr>"
  by (simp add: sleep_def)

lemma commit_db [simp]:
  "commit c (w\<lparr>db := d\<rparr>) = commit c w" "(commit c w)\<lparr>db := d\<rparr> = commit d w"
  by (simp_all add: commit_def log_def)




lemma with_conn_simps [simp]:
  "with_conn U c (Inl e) = Inl e" "with_conn U c (Inr s) = Inr (s\<lparr>conn := upsert_all U c\<rparr>)"
  by (simp_all add: with_conn_def)


















lemma log_upserts_simps [simp]:
  "log_upserts [] w = w" "log_upserts (v # vs) w = log_upserts vs (log (Upserted v) w)"
  by (simp_all add: log_upserts_def)

lemma log_upserts_db [simp]: "log_upserts vs (w\<lparr>db := d\<rparr>) = (log_upserts vs w)\<lparr>db := d\<rparr>"
  by (induction vs arbitrary: w) simp_all




lemma with_table_simps [simp]:
  "with_table U c (Inl e) = Inl e" "with_table U c (Inr s) = Inr (fst s, upsert_all U c)"
  by (simp_all add: with_table_def)













end
